theory Spec2Isabelle
  imports Main "HOL-Library.Sublist" "HOL-Library.Multiset"
begin

section \<open>The request normaliser of the image CDN (src/url-rewrite/index.js)\<close>

text \<open>
  The source is one JavaScript file with two module constants and three functions:
  \<^verbatim>\<open>parsePositiveInt\<close>, \<^verbatim>\<open>getBestFormatFromAcceptHeader\<close> and \<^verbatim>\<open>handler\<close>.
  Each is embedded below under its own name, after the JavaScript built-ins it calls.

  Strings are \<open>string\<close>: a character stands for one UTF-16 code unit below 256
  (ASCII and Latin-1). The code inspects strings only through comparison with ASCII
  literals, \<^verbatim>\<open>toLowerCase\<close>, \<^verbatim>\<open>parseInt\<close>, \<^verbatim>\<open>indexOf\<close> and
  \<^verbatim>\<open>encodeURIComponent\<close>; these are modelled on that range as ECMAScript defines them.

  Numbers are doubles. \<^verbatim>\<open>parseInt\<close> yields NaN, an infinity or a double of integral
  value, so a number is one of these (\<open>number\<close>); the integer that the digits denote
  is rounded to the nearest double, ties to even (\<open>toNumber\<close>).
\<close>

subsection \<open>Module constants\<close>

definition SUPPORTED_FORMATS :: "string list" where
  "SUPPORTED_FORMATS = [''auto'', ''jpeg'', ''webp'', ''avif'', ''png'', ''svg'', ''gif'']"

definition MAX_DIMENSION :: int where
  "MAX_DIMENSION = 4000"

subsection \<open>JavaScript built-ins on strings and numbers\<close>

text \<open>\<^verbatim>\<open>String.prototype.toLowerCase\<close>: A-Z, and the Latin-1 capitals C0-D6 and D8-DE.\<close>

definition lowerChar :: "char \<Rightarrow> char" where
  "lowerChar c =
     (let n = (of_char c :: nat)
      in if (65 \<le> n \<and> n \<le> 90) \<or> (192 \<le> n \<and> n \<le> 214) \<or> (216 \<le> n \<and> n \<le> 222)
         then char_of (n + 32) else c)"

definition toLowerCase :: "string \<Rightarrow> string" where
  "toLowerCase s = map lowerChar s"

text \<open>
  \<^verbatim>\<open>parseInt(value, 10)\<close>: skip leading white space (TAB, LF, VT, FF, CR, SP, NBSP),
  read one optional sign, take the longest prefix of decimal digits; NaN when that
  prefix is empty. With radix 10 no \<^verbatim>\<open>0x\<close> prefix is recognised.
\<close>

definition isWhiteSpace :: "char \<Rightarrow> bool" where
  "isWhiteSpace c = ((of_char c :: nat) \<in> {9, 10, 11, 12, 13, 32, 160})"

definition isDigit :: "char \<Rightarrow> bool" where
  "isDigit c = (48 \<le> (of_char c :: nat) \<and> (of_char c :: nat) \<le> 57)"

definition digitValue :: "char \<Rightarrow> int" where
  "digitValue c = int (of_char c) - 48"

definition digitsValue :: "string \<Rightarrow> int" where
  "digitsValue ds = foldl (\<lambda>a c. 10 * a + digitValue c) 0 ds"

definition mathInt :: "string \<Rightarrow> int option" where
  "mathInt v =
     (let s = dropWhile isWhiteSpace v;
          sign = (case s of c # _ \<Rightarrow> if c = CHR ''-'' then - 1 else 1 | [] \<Rightarrow> (1 :: int));
          s' = (case s of c # t \<Rightarrow> if c = CHR ''-'' \<or> c = CHR ''+'' then t else s | [] \<Rightarrow> s);
          z = takeWhile isDigit s'
      in if z = [] then None else Some (sign * digitsValue z))"

text \<open>
  The Number value of an integer: the integer itself below \<open>2 ^ 53\<close> in magnitude;
  beyond, with \<open>e\<close> the number of bits in excess of 53, the multiple of \<open>2 ^ e\<close>
  nearest to it, the even multiple at a tie, and an infinity from \<open>2 ^ 1024\<close> on.
  ECMAScript lets an implementation replace the digits after the 20th significant one
  by zeros before it rounds; \<open>mathInt\<close> keeps them. Negative zero is \<open>Finite 0\<close>.
\<close>

datatype number = NaN | Finite int | PosInfinity | NegInfinity

fun bitLength :: "nat \<Rightarrow> nat" where
  "bitLength n = (if n = 0 then 0 else Suc (bitLength (n div 2)))"

declare bitLength.simps [simp del]

definition roundedMantissa :: "nat \<Rightarrow> nat \<Rightarrow> nat" where
  "roundedMantissa n e =
     (let q = n div 2 ^ e; r = n mod 2 ^ e; half = 2 ^ (e - 1)
      in if half < r \<or> (r = half \<and> odd q) then q + 1 else q)"

definition roundNat :: "nat \<Rightarrow> nat option" where
  "roundNat n =
     (if n < 2 ^ 53 then Some n
      else (let e = bitLength n - 53; v = roundedMantissa n e * 2 ^ e
            in if v < 2 ^ 1024 then Some v else None))"

definition toNumber :: "int \<Rightarrow> number" where
  "toNumber n =
     (if n < 0
      then (case roundNat (nat (- n)) of None \<Rightarrow> NegInfinity | Some v \<Rightarrow> Finite (- int v))
      else (case roundNat (nat n) of None \<Rightarrow> PosInfinity | Some v \<Rightarrow> Finite (int v)))"

definition parseInt10 :: "string \<Rightarrow> number" where
  "parseInt10 v = (case mathInt v of None \<Rightarrow> NaN | Some n \<Rightarrow> toNumber n)"

text \<open>
  \<^verbatim>\<open>isNaN(x)\<close>, \<^verbatim>\<open>x <= 0\<close>, \<^verbatim>\<open>Math.min(x, m)\<close> for an integer \<open>m\<close>, the truth
  value of a number and \<^verbatim>\<open>x.toString()\<close>.
\<close>

fun isNaN :: "number \<Rightarrow> bool" where
  "isNaN NaN = True"
| "isNaN x = False"

fun lessEqZero :: "number \<Rightarrow> bool" where
  "lessEqZero NaN = False"
| "lessEqZero (Finite n) = (n \<le> 0)"
| "lessEqZero PosInfinity = False"
| "lessEqZero NegInfinity = True"

fun mathMin :: "number \<Rightarrow> int \<Rightarrow> number" where
  "mathMin NaN m = NaN"
| "mathMin (Finite n) m = Finite (min n m)"
| "mathMin PosInfinity m = Finite m"
| "mathMin NegInfinity m = NegInfinity"

fun numberTruthy :: "number \<Rightarrow> bool" where
  "numberTruthy NaN = False"
| "numberTruthy (Finite n) = (n \<noteq> 0)"
| "numberTruthy x = True"

text \<open>
  \<^verbatim>\<open>Number.prototype.toString()\<close>: the decimal digits of an integral double below
  \<open>10 ^ 21\<close> in magnitude (the handler prints numbers from 1 to 4000 only), and the
  names of the other numbers.
\<close>

fun decimal :: "nat \<Rightarrow> string" where
  "decimal n = (if n < 10 then [char_of (48 + n)] else decimal (n div 10) @ [char_of (48 + n mod 10)])"

declare decimal.simps [simp del]

definition toString :: "int \<Rightarrow> string" where
  "toString n = (if n < 0 then CHR ''-'' # decimal (nat (- n)) else decimal (nat n))"

fun numberToString :: "number \<Rightarrow> string" where
  "numberToString NaN = ''NaN''"
| "numberToString (Finite n) = toString n"
| "numberToString PosInfinity = ''Infinity''"
| "numberToString NegInfinity = ''-Infinity''"

text \<open>
  \<^verbatim>\<open>encodeURIComponent\<close>: the unreserved characters stay; any other code unit is
  written as the percent-escaped bytes of its UTF-8 encoding (one byte below 128, two
  bytes from 128 to 255). Surrogates, the only inputs on which it throws, are outside
  the range of the model; the handler applies it to ASCII strings only.
\<close>

definition uriUnreserved :: "char \<Rightarrow> bool" where
  "uriUnreserved c =
     (c \<in> set (''ABCDEFGHIJKLMNOPQRSTUVWXYZabcdefghijklmnopqrstuvwxyz0123456789-_.!~*()''
               @ [CHR 0x27]))"

definition hexDigit :: "nat \<Rightarrow> char" where
  "hexDigit n = ''0123456789ABCDEF'' ! (n mod 16)"

definition percentByte :: "nat \<Rightarrow> string" where
  "percentByte b = [CHR ''%'', hexDigit (b div 16), hexDigit (b mod 16)]"

definition encodeChar :: "char \<Rightarrow> string" where
  "encodeChar c =
     (let n = (of_char c :: nat)
      in if uriUnreserved c then [c]
         else if n < 128 then percentByte n
         else percentByte (192 + n div 64) @ percentByte (128 + n mod 64))"

definition encodeURIComponent :: "string \<Rightarrow> string" where
  "encodeURIComponent s = concat (map encodeChar s)"

text \<open>\<^verbatim>\<open>Array.prototype.join\<close> on an array of strings.\<close>

fun join :: "string \<Rightarrow> string list \<Rightarrow> string" where
  "join sep [] = []"
| "join sep [x] = x"
| "join sep (x # y # ys) = x @ sep @ join sep (y # ys)"

text \<open>
  \<^verbatim>\<open>Array.prototype.indexOf\<close> (strict equality of the elements) and
  \<^verbatim>\<open>String.prototype.indexOf\<close> (first position of a substring), both \<open>-1\<close> when
  there is none.
\<close>

fun indexOfFrom :: "'a list \<Rightarrow> 'a \<Rightarrow> nat \<Rightarrow> int" where
  "indexOfFrom [] x i = - 1"
| "indexOfFrom (y # ys) x i = (if y = x then int i else indexOfFrom ys x (Suc i))"

definition arrayIndexOf :: "'a list \<Rightarrow> 'a \<Rightarrow> int" where
  "arrayIndexOf xs x = indexOfFrom xs x 0"

fun startsWith :: "string \<Rightarrow> string \<Rightarrow> bool" where
  "startsWith s [] = True"
| "startsWith [] (c # cs) = False"
| "startsWith (d # ds) (c # cs) = (d = c \<and> startsWith ds cs)"

fun searchFrom :: "string \<Rightarrow> string \<Rightarrow> nat \<Rightarrow> int" where
  "searchFrom [] sub i = (if sub = [] then int i else - 1)"
| "searchFrom (c # cs) sub i =
     (if startsWith (c # cs) sub then int i else searchFrom cs sub (Suc i))"

definition stringIndexOf :: "string \<Rightarrow> string \<Rightarrow> int" where
  "stringIndexOf s sub = searchFrom s sub 0"

subsection \<open>parsePositiveInt (lines 4-20)\<close>

text \<open>
  The result \<open>None\<close> is \<^verbatim>\<open>null\<close>. The bound is \<open>Some m\<close> when
  \<^verbatim>\<open>typeof max === 'number'\<close>, \<open>None\<close> otherwise.
\<close>

definition parsePositiveInt :: "string \<Rightarrow> int option \<Rightarrow> number option" where
  "parsePositiveInt v mx =
     (let parsed = parseInt10 v
      in if isNaN parsed \<or> lessEqZero parsed then None
         else (case mx of Some m \<Rightarrow> Some (mathMin parsed m) | None \<Rightarrow> Some parsed))"

subsection \<open>JavaScript values, for the \<^verbatim>\<open>headers\<close> argument\<close>

text \<open>
  The code guards \<^verbatim>\<open>headers\<close> with \<^verbatim>\<open>typeof\<close> and truthiness tests, so its
  argument is modelled as an untyped value: the JSON values, numbers being integers.
  A \<^verbatim>\<open>TypeError\<close> that JavaScript throws is the left injection of the result.
\<close>

datatype jsval =
    JSUndefined
  | JSNull
  | JSBoolean bool
  | JSNumber int
  | JSString string
  | JSObject "(string \<times> jsval) list"
  | JSArray "jsval list"

datatype error = TypeError

fun typeof :: "jsval \<Rightarrow> string" where
  "typeof JSUndefined = ''undefined''"
| "typeof JSNull = ''object''"
| "typeof (JSBoolean b) = ''boolean''"
| "typeof (JSNumber n) = ''number''"
| "typeof (JSString s) = ''string''"
| "typeof (JSObject ps) = ''object''"
| "typeof (JSArray xs) = ''object''"

text \<open>ToBoolean, as \<^verbatim>\<open>!\<close> and \<^verbatim>\<open>if\<close> apply it.\<close>

fun truthy :: "jsval \<Rightarrow> bool" where
  "truthy JSUndefined = False"
| "truthy JSNull = False"
| "truthy (JSBoolean b) = b"
| "truthy (JSNumber n) = (n \<noteq> 0)"
| "truthy (JSString s) = (s \<noteq> [])"
| "truthy (JSObject ps) = True"
| "truthy (JSArray xs) = True"

text \<open>
  The property read \<^verbatim>\<open>v[p]\<close> for the two names the code reads, \<^verbatim>\<open>accept\<close> and
  \<^verbatim>\<open>value\<close>, which no built-in prototype defines: a \<^verbatim>\<open>TypeError\<close> on
  \<^verbatim>\<open>undefined\<close> and \<^verbatim>\<open>null\<close>, the own property of an object, and
  \<^verbatim>\<open>undefined\<close> where there is none and on every other value.
\<close>

fun getProperty :: "jsval \<Rightarrow> string \<Rightarrow> error + jsval" where
  "getProperty JSUndefined p = Inl TypeError"
| "getProperty JSNull p = Inl TypeError"
| "getProperty (JSObject ps) p = (case map_of ps p of Some v \<Rightarrow> Inr v | None \<Rightarrow> Inr JSUndefined)"
| "getProperty v p = Inr JSUndefined"

text \<open>
  The call \<^verbatim>\<open>v.indexOf(x)\<close> with a string \<open>x\<close>: strings and arrays have the method;
  on any other value \<^verbatim>\<open>v.indexOf\<close> is not a function and the call throws.
\<close>

fun callIndexOf :: "jsval \<Rightarrow> string \<Rightarrow> error + int" where
  "callIndexOf (JSString s) x = Inr (stringIndexOf s x)"
| "callIndexOf (JSArray xs) x = Inr (arrayIndexOf xs (JSString x))"
| "callIndexOf v x = Inl TypeError"

subsection \<open>getBestFormatFromAcceptHeader (lines 22-39)\<close>

definition getBestFormatFromAcceptHeader :: "jsval \<Rightarrow> error + string" where
  "getBestFormatFromAcceptHeader hdrs =
     (if typeof hdrs \<noteq> ''object'' then Inr ''jpeg''
      else (case getProperty hdrs ''accept'' of
        Inl e \<Rightarrow> Inl e
      | Inr accept \<Rightarrow>
          (if \<not> truthy accept then Inr ''jpeg''
           else (case getProperty accept ''value'' of
             Inl e \<Rightarrow> Inl e
           | Inr acceptHeaderValue \<Rightarrow>
               (if \<not> truthy acceptHeaderValue then Inr ''jpeg''
                else (case callIndexOf acceptHeaderValue ''image/webp'' of
                  Inl e \<Rightarrow> Inl e
                | Inr i \<Rightarrow> (if i \<noteq> - 1 then Inr ''webp'' else Inr ''jpeg'')))))))"

subsection \<open>handler (lines 41-99)\<close>

text \<open>
  The request: \<open>querystring\<close> is \<open>None\<close> when the property is missing (the guard of
  line 47 fails), otherwise the entries \<open>(name, value)\<close> in the order in which
  \<^verbatim>\<open>for ... in\<close> visits the own properties; \<open>value\<close> is the string that
  \<^verbatim>\<open>request.querystring[name]['value']\<close> reads, one entry for each own property. An
  event may carry more than its request; the handler reads nothing else.
\<close>

record request =
  uri :: string
  querystring :: "(string \<times> string) list option"
  headers :: jsval

record event =
  request :: request

type_synonym operations = "string \<rightharpoonup> string"

text \<open>
  The body of a round (lines 50-77) on the pair of \<^verbatim>\<open>normalizedOperations\<close> and
  \<^verbatim>\<open>formatFromQuery\<close> (\<open>None\<close> is \<^verbatim>\<open>null\<close>).
\<close>

definition setParsed :: "operations \<Rightarrow> string \<Rightarrow> number option \<Rightarrow> operations" where
  "setParsed ops k parsed =
     (case parsed of
        None \<Rightarrow> ops
      | Some x \<Rightarrow> if numberTruthy x then ops(k \<mapsto> numberToString x) else ops)"

definition queryStep ::
  "operations \<times> string option \<Rightarrow> string \<times> string \<Rightarrow> operations \<times> string option" where
  "queryStep st entry =
     (let ops = fst st; fromQuery = snd st;
          operation = fst entry; val = snd entry;
          name = toLowerCase operation
      in if name = ''format'' then
           (if val \<noteq> [] \<and> arrayIndexOf SUPPORTED_FORMATS (toLowerCase val) \<noteq> - 1
            then (if toLowerCase val = ''auto'' then (ops, None) else (ops, Some (toLowerCase val)))
            else (ops, fromQuery))
         else if name = ''width'' then
           (setParsed ops ''width'' (parsePositiveInt val (Some MAX_DIMENSION)), fromQuery)
         else if name = ''height'' then
           (setParsed ops ''height'' (parsePositiveInt val (Some MAX_DIMENSION)), fromQuery)
         else if name = ''quality'' then
           (setParsed ops ''quality'' (parsePositiveInt val (Some 100)), fromQuery)
         else (ops, fromQuery))"

text \<open>
  The guard of a round (line 49), \<^verbatim>\<open>request.querystring.hasOwnProperty(operation)\<close>.
  The method is looked up on the mapping itself: a parameter named
  \<^verbatim>\<open>hasOwnProperty\<close> shadows the method of \<^verbatim>\<open>Object.prototype\<close> with its entry,
  which is not a function, and the call throws.
\<close>

definition hasOwnPropertyCall :: "(string \<times> string) list \<Rightarrow> string \<Rightarrow> error + bool" where
  "hasOwnPropertyCall qs operation =
     (case map_of qs ''hasOwnProperty'' of
        Some entry \<Rightarrow> Inl TypeError
      | None \<Rightarrow> Inr (map_of qs operation \<noteq> None))"

text \<open>The rounds of the loop (lines 48-79) over the entries that are left to visit.\<close>

fun queryRounds ::
  "(string \<times> string) list \<Rightarrow> (string \<times> string) list \<Rightarrow> operations \<times> string option
     \<Rightarrow> error + operations \<times> string option" where
  "queryRounds qs [] st = Inr st"
| "queryRounds qs (entry # rest) st =
     (case hasOwnPropertyCall qs (fst entry) of
        Inl e \<Rightarrow> Inl e
      | Inr own \<Rightarrow> queryRounds qs rest (if own then queryStep st entry else st))"

definition queryLoop :: "request \<Rightarrow> error + operations \<times> string option" where
  "queryLoop r =
     (case querystring r of
        None \<Rightarrow> Inr (Map.empty, None)
      | Some qs \<Rightarrow> queryRounds qs qs (Map.empty, None))"

definition formatFromQuery :: "request \<Rightarrow> error + string option" where
  "formatFromQuery r = (case queryLoop r of Inl e \<Rightarrow> Inl e | Inr st \<Rightarrow> Inr (snd st))"

text \<open>Line 83: \<^verbatim>\<open>formatFromQuery || getBestFormatFromAcceptHeader(request.headers)\<close>.\<close>

definition finalFormat :: "request \<Rightarrow> error + string" where
  "finalFormat r =
     (case formatFromQuery r of
        Inl e \<Rightarrow> Inl e
      | Inr fromQuery \<Rightarrow>
          (case fromQuery of
             None \<Rightarrow> getBestFormatFromAcceptHeader (headers r)
           | Some f \<Rightarrow> if f \<noteq> [] then Inr f else getBestFormatFromAcceptHeader (headers r)))"

text \<open>\<^verbatim>\<open>normalizedOperations\<close> as it stands after line 84.\<close>

definition normalizedOperations :: "request \<Rightarrow> error + operations" where
  "normalizedOperations r =
     (case queryLoop r of
        Inl e \<Rightarrow> Inl e
      | Inr st \<Rightarrow>
          (case finalFormat r of
             Inl e \<Rightarrow> Inl e
           | Inr f \<Rightarrow> Inr ((fst st)(''format'' \<mapsto> f))))"

text \<open>
  Lines 87-91: one \<^verbatim>\<open>push\<close> for each key whose value is truthy, that is, present
  and not the empty string.
\<close>

definition pushIfSet :: "operations \<Rightarrow> string \<Rightarrow> string list" where
  "pushIfSet ops k =
     (case ops k of
        None \<Rightarrow> []
      | Some v \<Rightarrow> if v \<noteq> [] then [k @ ''='' @ encodeURIComponent v] else [])"

definition normalizedOperationsArray :: "operations \<Rightarrow> string list" where
  "normalizedOperationsArray ops =
     pushIfSet ops ''format'' @ pushIfSet ops ''quality''
     @ pushIfSet ops ''width'' @ pushIfSet ops ''height''"

definition handler :: "'a event_scheme \<Rightarrow> error + request" where
  "handler ev =
     (let r = request ev; originalImagePath = uri r
      in case normalizedOperations r of
           Inl e \<Rightarrow> Inl e
         | Inr ops \<Rightarrow>
             Inr (r\<lparr>uri := originalImagePath @ ''/''
                             @ encodeURIComponent (join '','' (normalizedOperationsArray ops)),
                    querystring := Some []\<rparr>))"

subsection \<open>Notions of the specification\<close>

text \<open>
  The words of the specification that the statements below use: a query entry is
  \<open>named k\<close> when its name, lower-cased, is \<open>k\<close> (the dispatch of line 51); a value
  is \<open>rejected\<close> when it is non-numeric or parses to an integer that is not positive
  (\<open>mathInt\<close> being the integer that \<^verbatim>\<open>parseInt\<close> reads); a format value is
  \<open>supportedValue\<close> when, in any letter case, it is one of the supported formats; a
  request has \<open>plainNames\<close> when none of its parameters is named
  \<^verbatim>\<open>hasOwnProperty\<close>; the entries have \<open>distinctNames\<close> when no two names are the
  same after lower-casing.
\<close>

definition named :: "string \<Rightarrow> string \<times> string \<Rightarrow> bool" where
  "named k entry = (toLowerCase (fst entry) = k)"

definition rejected :: "string \<Rightarrow> bool" where
  "rejected v = (case mathInt v of None \<Rightarrow> True | Some n \<Rightarrow> n \<le> 0)"

definition supportedValue :: "string \<Rightarrow> bool" where
  "supportedValue v = (v \<noteq> [] \<and> toLowerCase v \<in> set SUPPORTED_FORMATS)"

definition plainNames :: "request \<Rightarrow> bool" where
  "plainNames r =
     (case querystring r of
        None \<Rightarrow> True
      | Some qs \<Rightarrow> list_all (\<lambda>entry. fst entry \<noteq> ''hasOwnProperty'') qs)"


text \<open>The three bounded keys and their bounds (lines 61, 66 and 71).\<close>

definition boundedKeys :: "(string \<times> int) list" where
  "boundedKeys = [(''width'', MAX_DIMENSION), (''height'', MAX_DIMENSION), (''quality'', 100)]"

text \<open>
  The headers as the platform delivers them, in the words of the specification: a
  mapping from header names to entries \<^verbatim>\<open>{value: string}\<close>. \<open>acceptValue\<close> is the raw
  value of the Accept header of such a mapping, \<open>None\<close> when there is no usable one.
\<close>

fun stringOf :: "jsval \<Rightarrow> string option" where
  "stringOf (JSString s) = Some s"
| "stringOf v = None"

fun propertiesOf :: "jsval \<Rightarrow> (string \<times> jsval) list option" where
  "propertiesOf (JSObject ps) = Some ps"
| "propertiesOf v = None"

definition headerEntry :: "jsval \<Rightarrow> bool" where
  "headerEntry v =
     (case propertiesOf v of
        None \<Rightarrow> False
      | Some qs \<Rightarrow> (case map_of qs ''value'' of None \<Rightarrow> False | Some x \<Rightarrow> stringOf x \<noteq> None))"

definition platformHeaders :: "jsval \<Rightarrow> bool" where
  "platformHeaders h =
     (case propertiesOf h of
        None \<Rightarrow> False
      | Some ps \<Rightarrow> list_all (\<lambda>entry. headerEntry (snd entry)) ps)"

definition acceptValue :: "jsval \<Rightarrow> string option" where
  "acceptValue h =
     (case propertiesOf h of
        None \<Rightarrow> None
      | Some ps \<Rightarrow>
          (case map_of ps ''accept'' of
             None \<Rightarrow> None
           | Some a \<Rightarrow>
               (case propertiesOf a of
                  None \<Rightarrow> None
                | Some qs \<Rightarrow>
                    (case map_of qs ''value'' of None \<Rightarrow> None | Some x \<Rightarrow> stringOf x))))"

text \<open>
  The path segment in the words of the specification: the pairs \<open>key=value\<close> of the
  keys that are present, in the order format, quality, width, height, key and value
  each percent-encoded, joined by commas.
\<close>

definition specPair :: "operations \<Rightarrow> string \<Rightarrow> string list" where
  "specPair ops k =
     (case ops k of
        None \<Rightarrow> []
      | Some v \<Rightarrow> [encodeURIComponent k @ ''='' @ encodeURIComponent v])"

definition specSegment :: "operations \<Rightarrow> string" where
  "specSegment ops =
     join '','' (concat (map (specPair ops) [''format'', ''quality'', ''width'', ''height'']))"

text \<open>
  Two invariants of the loop: every value stored in the mapping is a non-empty string,
  and \<^verbatim>\<open>formatFromQuery\<close> is \<^verbatim>\<open>null\<close> or a supported format other than
  \<^verbatim>\<open>auto\<close>. \<open>operationValue\<close> reads one key of the mapping after line 84.
  \<open>queryFold\<close> is the state after all rounds of a loop that does not throw.
\<close>

definition queryFold :: "request \<Rightarrow> operations \<times> string option" where
  "queryFold r =
     foldl queryStep (Map.empty, None) (case querystring r of None \<Rightarrow> [] | Some qs \<Rightarrow> qs)"

definition nonemptyValues :: "operations \<Rightarrow> bool" where
  "nonemptyValues ops = (\<forall>k v. ops k = Some v \<longrightarrow> v \<noteq> [])"

definition explicitFormat :: "string option \<Rightarrow> bool" where
  "explicitFormat fq = (case fq of None \<Rightarrow> True | Some f \<Rightarrow> f \<in> set SUPPORTED_FORMATS \<and> f \<noteq> ''auto'')"

definition operationValue :: "request \<Rightarrow> string \<Rightarrow> error + string option" where
  "operationValue r k = (case normalizedOperations r of Inl e \<Rightarrow> Inl e | Inr ops \<Rightarrow> Inr (ops k))"

section \<open>Facts about the built-ins\<close>

lemma error_TypeError: "(e = TypeError) = True"
  by (cases e) simp

lemma indexOfFrom_mem: "(indexOfFrom xs x i \<noteq> - 1) = (x \<in> set xs)"
  by (induction xs arbitrary: i) auto

lemma arrayIndexOf_mem: "(arrayIndexOf xs x \<noteq> - 1) = (x \<in> set xs)"
  by (simp add: arrayIndexOf_def indexOfFrom_mem)

lemma startsWith_prefix: "startsWith s sub = prefix sub s"
  by (induction s sub rule: startsWith.induct) auto

lemma searchFrom_sublist: "(searchFrom s sub i \<noteq> - 1) = sublist sub s"
proof (induction s arbitrary: i)
  case Nil
  then show ?case by simp
next
  case (Cons c cs)
  show ?case
  proof (cases "startsWith (c # cs) sub")
    case True
    then have "prefix sub (c # cs)" by (simp add: startsWith_prefix)
    then have "sublist sub (c # cs)" by (rule prefix_imp_sublist)
    with True show ?thesis by simp
  next
    case False
    then have np: "\<not> prefix sub (c # cs)" by (simp add: startsWith_prefix)
    have "sublist sub (c # cs) = sublist sub cs"
      using np by (simp add: sublist_Cons_right)
    with False Cons.IH show ?thesis by simp
  qed
qed

lemma stringIndexOf_sublist: "(stringIndexOf s sub \<noteq> - 1) = sublist sub s"
  by (simp add: stringIndexOf_def searchFrom_sublist)

lemma decimal_nonempty: "decimal n \<noteq> []"
  by (subst decimal.simps) simp

lemma toString_nonempty: "toString n \<noteq> []"
  by (simp add: toString_def decimal_nonempty)

subsection \<open>Rounding to a double\<close>

lemma bitLength_one: "bitLength (Suc 0) = Suc 0"
  by (simp add: bitLength.simps [of "Suc 0"] bitLength.simps [of 0])

lemma power2_less_exp: "(2::nat) ^ a < 2 ^ b \<Longrightarrow> a < b"
  by (rule power_less_imp_less_exp [of 2]) simp_all

lemma bitLength_bounds: "0 < n \<Longrightarrow> 2 ^ (bitLength n - 1) \<le> n \<and> n < 2 ^ bitLength n"
proof (induction n rule: bitLength.induct)
  case (1 n)
  show ?case
  proof (cases "n div 2 = 0")
    case True
    then have "n = 1" using 1(2) by linarith
    then show ?thesis
      by (simp add: bitLength_one)
  next
    case False
    then have ih: "2 ^ (bitLength (n div 2) - 1) \<le> n div 2 \<and> n div 2 < 2 ^ bitLength (n div 2)"
      using 1 by simp
    have pos: "0 < bitLength (n div 2)"
      using False by (subst bitLength.simps) simp
    have bl: "bitLength n = Suc (bitLength (n div 2))"
      using 1(2) by (subst bitLength.simps) simp
    have "2 ^ (bitLength n - 1) = 2 * 2 ^ (bitLength (n div 2) - 1)"
      using pos by (simp add: bl power_Suc [symmetric] del: power_Suc)
    also have "\<dots> \<le> 2 * (n div 2)" using ih by simp
    also have "\<dots> \<le> n" by simp
    finally have lo: "2 ^ (bitLength n - 1) \<le> n" .
    have "n < 2 * (n div 2) + 2" by linarith
    also have "\<dots> \<le> 2 * 2 ^ bitLength (n div 2)" using ih by simp
    finally have "n < 2 ^ bitLength n" by (simp add: bl)
    with lo show ?thesis by simp
  qed
qed

lemma bitLength_eq:
  assumes "2 ^ k \<le> n" and "n < 2 ^ Suc k"
  shows "bitLength n = Suc k"
proof -
  have pos: "0 < n" using assms(1) by (metis gr0I not_less zero_less_numeral zero_less_power)
  from bitLength_bounds [OF pos] have lo: "2 ^ (bitLength n - 1) \<le> n" and hi: "n < 2 ^ bitLength n"
    by simp_all
  have "(2::nat) ^ k < 2 ^ bitLength n" using assms(1) hi by linarith
  then have a: "k < bitLength n" by (rule power2_less_exp)
  have "(2::nat) ^ (bitLength n - 1) < 2 ^ Suc k" using lo assms(2) by linarith
  then have b: "bitLength n - 1 < Suc k" by (rule power2_less_exp)
  from a b show ?thesis by linarith
qed

lemma roundNat_exact: "n < 2 ^ 53 \<Longrightarrow> roundNat n = Some n"
  by (simp add: roundNat_def)

lemma roundedMantissa_ge: "n div 2 ^ e \<le> roundedMantissa n e"
  by (simp add: roundedMantissa_def Let_def)

lemma roundNat_large:
  assumes "2 ^ 53 \<le> n" and "roundNat n = Some v"
  shows "2 ^ 53 \<le> v"
proof -
  have pos: "0 < n" using assms(1) by (metis gr0I not_less zero_less_numeral zero_less_power)
  define e where "e = bitLength n - 53"
  from bitLength_bounds [OF pos] have lo: "2 ^ (bitLength n - 1) \<le> n" and hi: "n < 2 ^ bitLength n"
    by simp_all
  have "(2::nat) ^ 53 < 2 ^ bitLength n" using assms(1) hi by linarith
  then have bl: "53 < bitLength n" by (rule power2_less_exp)
  then have e: "1 \<le> e" and ble: "bitLength n - 1 = 52 + e" by (simp_all add: e_def)
  have "(2::nat) ^ (52 + e) \<le> n" using lo by (simp only: ble)
  then have "2 ^ 52 * 2 ^ e \<le> n" by (simp only: power_add)
  then have "2 ^ 52 \<le> n div 2 ^ e"
    by (simp add: less_eq_div_iff_mult_less_eq)
  then have q': "2 ^ 52 \<le> roundedMantissa n e"
    using roundedMantissa_ge [of n e] by linarith
  have "(2::nat) ^ 1 \<le> 2 ^ e" using e by (intro power_increasing) simp_all
  then have two: "(2::nat) \<le> 2 ^ e" by simp
  have "\<not> n < 2 ^ 53" using assms(1) by simp
  then have v: "v = roundedMantissa n e * 2 ^ e"
    using assms(2) unfolding roundNat_def Let_def e_def by (simp split: if_splits)
  have "(2::nat) ^ 53 = 2 ^ 52 * 2" by simp
  also have "\<dots> \<le> roundedMantissa n e * 2 ^ e" using q' two by (rule mult_le_mono)
  finally show ?thesis by (simp add: v)
qed

lemma toNumber_exact: "\<bar>n\<bar> < 2 ^ 53 \<Longrightarrow> toNumber n = Finite n"
  by (auto simp: toNumber_def roundNat_def nat_less_iff)

lemma roundNat_pos: "0 < n \<Longrightarrow> roundNat n = Some v \<Longrightarrow> 0 < v"
proof (cases "n < 2 ^ 53")
  case True
  assume "0 < n" "roundNat n = Some v"
  with True show ?thesis by (simp add: roundNat_def)
next
  case False
  assume "roundNat n = Some v"
  with False have "2 ^ 53 \<le> v" by (intro roundNat_large [of n v]) simp_all
  then show ?thesis by (metis gr0I not_less zero_less_numeral zero_less_power le_zero_eq)
qed

lemma toNumber_positive:
  "0 < n \<Longrightarrow> toNumber n = PosInfinity \<or> (\<exists>k. 0 < k \<and> toNumber n = Finite k)"
  using roundNat_pos [of "nat n"]
  by (auto simp: toNumber_def split: option.splits)

lemma toNumber_not_positive:
  "n \<le> 0 \<Longrightarrow> toNumber n = NegInfinity \<or> (\<exists>k. k \<le> 0 \<and> toNumber n = Finite k)"
  by (auto simp: toNumber_def roundNat_def split: option.splits)

lemma toNumber_large:
  assumes "2 ^ 53 \<le> n"
  shows "toNumber n = PosInfinity \<or> (\<exists>k. 2 ^ 53 \<le> k \<and> toNumber n = Finite k)"
proof -
  have n: "2 ^ 53 \<le> nat n" using assms by (simp add: le_nat_iff)
  show ?thesis
    using roundNat_large [OF n] assms
    by (auto simp: toNumber_def split: option.splits)
qed

lemma toNumber_tie: "toNumber 9007199254740993 = Finite 9007199254740992"
proof -
  have "bitLength 9007199254740993 = Suc 53"
    by (rule bitLength_eq) simp_all
  then show ?thesis
    by (simp add: toNumber_def roundNat_def roundedMantissa_def Let_def)
qed

lemma isNaN_toNumber: "\<not> isNaN (toNumber n)"
  by (auto simp: toNumber_def split: option.splits)

lemma lessEqZero_toNumber: "lessEqZero (toNumber n) = (n \<le> 0)"
proof (cases "n \<le> 0")
  case True
  then show ?thesis
    using toNumber_not_positive [of n] by auto
next
  case False
  then show ?thesis
    using toNumber_positive [of n] by auto
qed

lemma mathMin_toNumber:
  assumes "0 < n" and "m < 2 ^ 53"
  shows "mathMin (toNumber n) m = Finite (min n m)"
proof (cases "n < 2 ^ 53")
  case True
  then have "toNumber n = Finite n"
    using assms(1) by (simp add: toNumber_exact)
  then show ?thesis by simp
next
  case False
  then have large: "2 ^ 53 \<le> n" by simp
  then have m: "min n m = m" using assms(2) by simp
  from toNumber_large [OF large] show ?thesis
  proof
    assume "toNumber n = PosInfinity"
    then show ?thesis by (simp add: m)
  next
    assume "\<exists>k. 2 ^ 53 \<le> k \<and> toNumber n = Finite k"
    then obtain k where "2 ^ 53 \<le> k" and "toNumber n = Finite k" by blast
    then show ?thesis using assms(2) by (simp add: m)
  qed
qed

subsection \<open>The result of parsePositiveInt\<close>

lemma parsePositiveInt_None:
  "(parsePositiveInt v mx = None) = (case mathInt v of None \<Rightarrow> True | Some p \<Rightarrow> p \<le> 0)"
  by (auto simp: parsePositiveInt_def parseInt10_def Let_def isNaN_toNumber lessEqZero_toNumber
      split: option.splits)

lemma parsePositiveInt_unbounded:
  "parsePositiveInt v None =
     (case mathInt v of None \<Rightarrow> None | Some n \<Rightarrow> if n \<le> 0 then None else Some (toNumber n))"
  by (auto simp: parsePositiveInt_def parseInt10_def Let_def isNaN_toNumber lessEqZero_toNumber
      split: option.splits)

lemma parsePositiveInt_bounded:
  assumes "m < 2 ^ 53"
  shows "parsePositiveInt v (Some m) =
           (case mathInt v of
              None \<Rightarrow> None
            | Some n \<Rightarrow> if n \<le> 0 then None else Some (Finite (min n m)))"
  using mathMin_toNumber [OF _ assms]
  by (auto simp: parsePositiveInt_def parseInt10_def Let_def isNaN_toNumber lessEqZero_toNumber
      split: option.splits)

lemma parsePositiveInt_Some:
  assumes "m < 2 ^ 53"
  shows "(parsePositiveInt v (Some m) = Some x)
           = (\<exists>p. mathInt v = Some p \<and> 0 < p \<and> x = Finite (min p m))"
  by (auto simp: parsePositiveInt_bounded [OF assms] split: option.splits)

subsection \<open>Values of the built-ins on the strings used below\<close>

lemma toLowerCase_facts:
  "toLowerCase ''width'' = ''width''" "toLowerCase ''WIDTH'' = ''width''"
  "toLowerCase ''height'' = ''height''" "toLowerCase ''quality'' = ''quality''"
  "toLowerCase ''format'' = ''format''" "toLowerCase ''FORMAT'' = ''format''"
  "toLowerCase ''webp'' = ''webp''" "toLowerCase ''auto'' = ''auto''"
  "toLowerCase ''png'' = ''png''"
  by (simp_all add: toLowerCase_def lowerChar_def char_of_def bit_0)

lemma mathInt_facts:
  "mathInt ''300'' = Some 300" "mathInt ''500'' = Some 500"
  "mathInt ''9999'' = Some 9999" "mathInt ''0'' = Some 0"
  "mathInt ''abc'' = None" "mathInt ''abc12'' = None" "mathInt ''12abc'' = Some 12"
  by (simp_all add: mathInt_def isWhiteSpace_def isDigit_def digitsValue_def digitValue_def)

lemma parsePositiveInt_facts:
  "parsePositiveInt ''300'' (Some 4000) = Some (Finite 300)"
  "parsePositiveInt ''500'' (Some 4000) = Some (Finite 500)"
  "parsePositiveInt ''9999'' (Some 4000) = Some (Finite 4000)"
  "parsePositiveInt ''0'' (Some 100) = None"
  "parsePositiveInt ''abc'' (Some 4000) = None"
  by (simp_all add: parsePositiveInt_bounded mathInt_facts)

lemma toString_facts:
  "toString 300 = ''300''" "toString 500 = ''500''" "toString 4000 = ''4000''"
  "toString 12 = ''12''"
  by (simp_all add: toString_def decimal.simps char_of_def bit_0)

lemma encodeURIComponent_facts:
  "encodeURIComponent ''format'' = ''format''" "encodeURIComponent ''quality'' = ''quality''"
  "encodeURIComponent ''width'' = ''width''" "encodeURIComponent ''height'' = ''height''"
  "encodeURIComponent ''png'' = ''png''" "encodeURIComponent ''jpeg'' = ''jpeg''"
  "encodeURIComponent ''webp'' = ''webp''"
  "encodeURIComponent ''300'' = ''300''" "encodeURIComponent ''4000'' = ''4000''"
  "encodeURIComponent ''format=png,width=300,height=4000''
     = ''format%3Dpng%2Cwidth%3D300%2Cheight%3D4000''"
  "encodeURIComponent ''format=jpeg'' = ''format%3Djpeg''"
  by (simp_all add: encodeURIComponent_def encodeChar_def uriUnreserved_def percentByte_def
      hexDigit_def)

lemmas eval_facts = toLowerCase_facts mathInt_facts toString_facts encodeURIComponent_facts

lemma supportedValue_facts:
  "supportedValue ''webp''" "supportedValue ''auto''" "supportedValue ''png''"
  by (simp_all add: supportedValue_def SUPPORTED_FORMATS_def toLowerCase_facts)

lemma rejected_facts: "rejected ''abc''" "rejected ''0''" "\<not> rejected ''300''"
  by (simp_all add: rejected_def mathInt_facts)

section \<open>The integer parameter parser\<close>

lemma digit_not_space: "isDigit c \<Longrightarrow> \<not> isWhiteSpace c"
  by (auto simp: isDigit_def isWhiteSpace_def)

lemma digit_not_sign: "isDigit c \<Longrightarrow> c \<noteq> CHR ''-'' \<and> c \<noteq> CHR ''+''"
  by (auto simp: isDigit_def)

lemma sign_not_space: "\<not> isWhiteSpace CHR ''+''" "\<not> isWhiteSpace CHR ''-''"
  by (simp_all add: isWhiteSpace_def)

lemma takeWhile_digits:
  assumes "\<forall>c \<in> set ds. isDigit c" and "rest = [] \<or> \<not> isDigit (hd rest)"
  shows "takeWhile isDigit (ds @ rest) = ds"
proof -
  have "takeWhile isDigit rest = []"
    using assms(2) by (simp add: takeWhile_eq_Nil_iff)
  then show ?thesis
    using assms(1) by (simp add: takeWhile_append2 [of ds isDigit rest])
qed

lemma mathInt_after_space:
  assumes "\<forall>c \<in> set ws. isWhiteSpace c"
  shows "mathInt (ws @ t) = mathInt t"
proof -
  have "dropWhile isWhiteSpace (ws @ t) = dropWhile isWhiteSpace t"
    using assms by (simp add: dropWhile_append2 [of ws isWhiteSpace t])
  then show ?thesis by (simp add: mathInt_def)
qed

lemma mathInt_digits:
  assumes "ds \<noteq> []" and "\<forall>c \<in> set ds. isDigit c" and "rest = [] \<or> \<not> isDigit (hd rest)"
  shows "mathInt (ds @ rest) = Some (digitsValue ds)"
proof -
  from assms(1) obtain d ds' where ds: "ds = d # ds'" by (cases ds) auto
  have d: "isDigit d" using assms(2) ds by simp
  have drop: "dropWhile isWhiteSpace (ds @ rest) = ds @ rest"
    using digit_not_space [OF d] by (simp add: ds)
  have "mathInt (ds @ rest) = Some (1 * digitsValue ds)"
    unfolding mathInt_def drop
    using digit_not_sign [OF d] takeWhile_digits [OF assms(2,3)] assms(1) by (simp add: ds)
  then show ?thesis by simp
qed

lemma mathInt_plus:
  assumes "ds \<noteq> []" and "\<forall>c \<in> set ds. isDigit c" and "rest = [] \<or> \<not> isDigit (hd rest)"
  shows "mathInt (CHR ''+'' # ds @ rest) = Some (digitsValue ds)"
  using takeWhile_digits [OF assms(2,3)] assms(1)
  by (simp add: mathInt_def sign_not_space)

lemma mathInt_minus:
  assumes "ds \<noteq> []" and "\<forall>c \<in> set ds. isDigit c" and "rest = [] \<or> \<not> isDigit (hd rest)"
  shows "mathInt (CHR ''-'' # ds @ rest) = Some (- digitsValue ds)"
  using takeWhile_digits [OF assms(2,3)] assms(1)
  by (simp add: mathInt_def sign_not_space)

lemma mathInt_signed_digits:
  assumes "\<forall>c \<in> set ws. isWhiteSpace c" and "sg \<in> {[], ''+'', ''-''}"
    and "ds \<noteq> []" and "\<forall>c \<in> set ds. isDigit c" and "rest = [] \<or> \<not> isDigit (hd rest)"
  shows "mathInt (ws @ sg @ ds @ rest) = Some ((if sg = ''-'' then - 1 else 1) * digitsValue ds)"
  using assms(2) mathInt_digits [OF assms(3,4,5)] mathInt_plus [OF assms(3,4,5)]
    mathInt_minus [OF assms(3,4,5)]
  by (auto simp: mathInt_after_space [OF assms(1)])

lemma mathInt_garbage:
  assumes "\<not> isWhiteSpace c" and "\<not> isDigit c" and "c \<noteq> CHR ''-''" and "c \<noteq> CHR ''+''"
  shows "mathInt (c # s) = None"
  using assms by (simp add: mathInt_def)

lemma mathInt_no_digits:
  assumes "\<forall>c \<in> set ws. isWhiteSpace c" and "sg \<in> {[], ''+'', ''-''}"
    and "u = [] \<or> \<not> isDigit (hd u)"
    and "sg = [] \<longrightarrow> u = [] \<or> (\<not> isWhiteSpace (hd u) \<and> hd u \<noteq> CHR ''+'' \<and> hd u \<noteq> CHR ''-'')"
  shows "mathInt (ws @ sg @ u) = None"
proof -
  have take: "takeWhile isDigit u = []"
    using assms(3) by (simp add: takeWhile_eq_Nil_iff)
  have "mathInt (sg @ u) = None"
  proof (cases "sg = []")
    case True
    show ?thesis
    proof (cases u)
      case Nil
      then show ?thesis by (simp add: True mathInt_def)
    next
      case (Cons c s)
      then show ?thesis
        using assms(3,4) True by (simp add: mathInt_garbage)
    qed
  next
    case False
    then show ?thesis
      using assms(2) take by (auto simp: mathInt_def sign_not_space)
  qed
  then show ?thesis
    by (simp add: mathInt_after_space [OF assms(1)])
qed

lemma digitValue_nonneg: "isDigit c \<Longrightarrow> 0 \<le> digitValue c"
  by (simp add: isDigit_def digitValue_def)

lemma foldl_digits_nonneg:
  "0 \<le> a \<Longrightarrow> \<forall>c \<in> set ds. isDigit c \<Longrightarrow> 0 \<le> foldl (\<lambda>a c. 10 * a + digitValue c) a ds"
proof (induction ds arbitrary: a)
  case Nil
  then show ?case by simp
next
  case (Cons d ds)
  have "0 \<le> 10 * a + digitValue d"
    using Cons.prems digitValue_nonneg [of d] by simp
  then show ?case
    using Cons by simp
qed

lemma digitsValue_nonneg: "\<forall>c \<in> set ds. isDigit c \<Longrightarrow> 0 \<le> digitsValue ds"
  by (simp add: digitsValue_def foldl_digits_nonneg)

text \<open>
  The decimal string that \<^verbatim>\<open>toString\<close> writes for a natural number parses back to
  that number.
\<close>

lemma of_char_digit: "(d :: nat) < 10 \<Longrightarrow> (of_char (char_of (48 + d)) :: nat) = 48 + d"
  by (simp add: of_char_of)

lemma isDigit_char_of: "(d :: nat) < 10 \<Longrightarrow> isDigit (char_of (48 + d))"
  by (simp add: isDigit_def of_char_digit)

lemma digitValue_char_of: "(d :: nat) < 10 \<Longrightarrow> digitValue (char_of (48 + d)) = int d"
  by (simp add: digitValue_def of_char_digit)

lemma decimal_digits: "\<forall>c \<in> set (decimal n). isDigit c"
proof (induction n rule: decimal.induct)
  case (1 n)
  show ?case
  proof (cases "n < 10")
    case True
    then show ?thesis
      by (subst decimal.simps) (simp add: isDigit_char_of)
  next
    case False
    then show ?thesis
      using 1 by (subst decimal.simps) (simp add: isDigit_char_of)
  qed
qed

lemma digitsValue_snoc: "digitsValue (ds @ [c]) = 10 * digitsValue ds + digitValue c"
  by (simp add: digitsValue_def)

lemma digitsValue_decimal: "digitsValue (decimal n) = int n"
proof (induction n rule: decimal.induct)
  case (1 n)
  show ?case
  proof (cases "n < 10")
    case True
    then show ?thesis
      by (subst decimal.simps) (simp add: digitsValue_def digitValue_char_of)
  next
    case False
    then have "digitsValue (decimal (n div 10)) = int (n div 10)"
      using 1 by simp
    then have "digitsValue (decimal (n div 10) @ [char_of (48 + n mod 10)])
                 = 10 * int (n div 10) + int (n mod 10)"
      by (simp add: digitsValue_snoc digitValue_char_of)
    also have "\<dots> = int n"
      by (simp add: zdiv_int zmod_int)
    finally show ?thesis
      using False by (subst decimal.simps) simp
  qed
qed

lemma mathInt_decimal: "mathInt (decimal n) = Some (int n)"
  using mathInt_digits [of "decimal n" "[]"] decimal_nonempty [of n] decimal_digits [of n]
  by (simp add: digitsValue_decimal)

lemma mathInt_toString: "0 \<le> n \<Longrightarrow> mathInt (toString n) = Some n"
  by (simp add: toString_def mathInt_decimal)

lemma parseInt10_toString: "0 \<le> n \<Longrightarrow> n < 2 ^ 53 \<Longrightarrow> parseInt10 (toString n) = Finite n"
  by (simp add: parseInt10_def mathInt_toString toNumber_exact)

text \<open>
  C8, as the code has it. \<^verbatim>\<open>parseInt\<close> skips white space, reads one sign and then the
  longest prefix of digits, so it is text after the digits that is ignored, not text
  before them. White space, an optional sign and digits, followed by text that does not
  start with a digit (\<^verbatim>\<open>12abc\<close>), give the Number value of the digits when the sign is
  not a minus and the digits are not all zero, and \<^verbatim>\<open>null\<close> otherwise. When no digit
  follows the white space and the sign (\<^verbatim>\<open>abc12\<close>) the result is \<^verbatim>\<open>null\<close>, with or
  without a bound. The Number value is the integer itself below \<open>2 ^ 53\<close> and the
  nearest double beyond; without a bound it is returned as it is.
\<close>

theorem trailing_garbage_accepted:
  "(\<forall>ws sg ds rest.
       (\<forall>c \<in> set ws. isWhiteSpace c) \<and> sg \<in> {[], ''+'', ''-''}
       \<and> ds \<noteq> [] \<and> (\<forall>c \<in> set ds. isDigit c) \<and> (rest = [] \<or> \<not> isDigit (hd rest))
       \<longrightarrow> parsePositiveInt (ws @ sg @ ds @ rest) None
            = (if sg \<noteq> ''-'' \<and> 0 < digitsValue ds then Some (toNumber (digitsValue ds))
               else None))
   \<and> (\<forall>ws sg u mx.
         (\<forall>c \<in> set ws. isWhiteSpace c) \<and> sg \<in> {[], ''+'', ''-''}
         \<and> (u = [] \<or> \<not> isDigit (hd u))
         \<and> (sg = [] \<longrightarrow> u = [] \<or> (\<not> isWhiteSpace (hd u) \<and> hd u \<noteq> CHR ''+'' \<and> hd u \<noteq> CHR ''-''))
         \<longrightarrow> parsePositiveInt (ws @ sg @ u) mx = None)
   \<and> (\<forall>n. \<bar>n\<bar> < 2 ^ 53 \<longrightarrow> toNumber n = Finite n)
   \<and> (\<forall>v n. mathInt v = Some n \<and> 0 < n \<longrightarrow> parsePositiveInt v None = Some (toNumber n))"
proof (intro conjI allI impI)
  fix ws sg ds rest
  assume h: "(\<forall>c \<in> set ws. isWhiteSpace c) \<and> sg \<in> {[], ''+'', ''-''}
       \<and> ds \<noteq> [] \<and> (\<forall>c \<in> set ds. isDigit c) \<and> (rest = [] \<or> \<not> isDigit (hd rest))"
  then have m: "mathInt (ws @ sg @ ds @ rest)
                  = Some ((if sg = ''-'' then - 1 else 1) * digitsValue ds)"
    by (intro mathInt_signed_digits) simp_all
  have "0 \<le> digitsValue ds"
    using h by (simp add: digitsValue_nonneg)
  then show "parsePositiveInt (ws @ sg @ ds @ rest) None
            = (if sg \<noteq> ''-'' \<and> 0 < digitsValue ds then Some (toNumber (digitsValue ds))
               else None)"
    by (simp add: parsePositiveInt_unbounded m)
next
  fix ws sg u mx
  assume "(\<forall>c \<in> set ws. isWhiteSpace c) \<and> sg \<in> {[], ''+'', ''-''}
         \<and> (u = [] \<or> \<not> isDigit (hd u))
         \<and> (sg = [] \<longrightarrow> u = [] \<or> (\<not> isWhiteSpace (hd u) \<and> hd u \<noteq> CHR ''+'' \<and> hd u \<noteq> CHR ''-''))"
  then have "mathInt (ws @ sg @ u) = None"
    by (intro mathInt_no_digits) simp_all
  then show "parsePositiveInt (ws @ sg @ u) mx = None"
    by (simp add: parsePositiveInt_None)
next
  fix n :: int
  assume "\<bar>n\<bar> < 2 ^ 53"
  then show "toNumber n = Finite n"
    by (rule toNumber_exact)
next
  fix v n
  assume "mathInt v = Some n \<and> 0 < n"
  then show "parsePositiveInt v None = Some (toNumber n)"
    by (simp add: parsePositiveInt_unbounded)
qed

theorem trailing_garbage_accepted_witness:
  "parsePositiveInt '' +12abc'' None = Some (Finite 12)
   \<and> parsePositiveInt ''abc12'' (Some 4000) = None
   \<and> parsePositiveInt ''9007199254740993px'' None = Some (Finite 9007199254740992)"
proof -
  have a: "(\<forall>c \<in> set '' ''. isWhiteSpace c) \<and> ''+'' \<in> {[], ''+'', ''-''}
           \<and> ''12'' \<noteq> [] \<and> (\<forall>c \<in> set ''12''. isDigit c)
           \<and> (''abc'' = [] \<or> \<not> isDigit (hd ''abc''))"
    by (simp add: isDigit_def isWhiteSpace_def)
  have b: "(\<forall>c \<in> set []. isWhiteSpace c) \<and> [] \<in> {[], ''+'', ''-''}
           \<and> (''abc12'' = [] \<or> \<not> isDigit (hd ''abc12''))
           \<and> ([] = ([] :: string) \<longrightarrow> ''abc12'' = []
                \<or> (\<not> isWhiteSpace (hd ''abc12'') \<and> hd ''abc12'' \<noteq> CHR ''+''
                    \<and> hd ''abc12'' \<noteq> CHR ''-''))"
    by (simp add: isDigit_def isWhiteSpace_def)
  have c: "mathInt ''9007199254740993px'' = Some 9007199254740993 \<and> (0 :: int) < 9007199254740993"
    by (simp add: mathInt_def isWhiteSpace_def isDigit_def digitsValue_def digitValue_def)
  have dv: "digitsValue ''12'' = 12"
    by (simp add: digitsValue_def digitValue_def)
  have small: "\<bar>12 :: int\<bar> < 2 ^ 53"
    by simp
  have "parsePositiveInt ('' '' @ ''+'' @ ''12'' @ ''abc'') None = Some (toNumber 12)"
    using trailing_garbage_accepted [THEN conjunct1, rule_format, OF a] by (simp add: dv)
  moreover have "toNumber 12 = Finite 12"
    using trailing_garbage_accepted [THEN conjunct2, THEN conjunct2, THEN conjunct1, rule_format,
        OF small] .
  moreover have "parsePositiveInt ([] @ [] @ ''abc12'') (Some 4000) = None"
    using trailing_garbage_accepted [THEN conjunct2, THEN conjunct1, rule_format, OF b] .
  moreover have "parsePositiveInt ''9007199254740993px'' None = Some (toNumber 9007199254740993)"
    using trailing_garbage_accepted [THEN conjunct2, THEN conjunct2, THEN conjunct2, rule_format,
        OF c] .
  ultimately show ?thesis
    by (simp add: toNumber_tie)
qed

text \<open>
  C8 as stated fails: on \<^verbatim>\<open>abc12\<close>, leading text followed by digits, the parser
  returns \<^verbatim>\<open>null\<close>.
\<close>

theorem leading_garbage_counterexample:
  "parsePositiveInt ''abc12'' None = None"
  by (simp add: parsePositiveInt_None mathInt_facts)

section \<open>The format negotiator\<close>

lemma getBestFormatFromAcceptHeader_range:
  "getBestFormatFromAcceptHeader h \<in> {Inr ''jpeg'', Inr ''webp'', Inl TypeError}"
  by (simp add: getBestFormatFromAcceptHeader_def error_TypeError split: sum.splits)

lemma getBest_png:
  "getBestFormatFromAcceptHeader (JSObject [(''accept'', JSObject [(''value'', JSString ''image/png'')])])
   = Inr ''jpeg''"
  by (simp add: getBestFormatFromAcceptHeader_def stringIndexOf_def)

lemma getBest_webp:
  "getBestFormatFromAcceptHeader
     (JSObject [(''accept'', JSObject [(''value'', JSString ''text/html,image/webp'')])])
   = Inr ''webp''"
  by (simp add: getBestFormatFromAcceptHeader_def stringIndexOf_def)

text \<open>
  What the negotiator does on every value: \<^verbatim>\<open>jpeg\<close> on anything that is not an
  object and on a mapping without an Accept entry, the substring test on a mapping of
  the platform's shape, and a \<^verbatim>\<open>TypeError\<close> exactly on \<^verbatim>\<open>null\<close> and on an Accept
  entry whose value is truthy and neither a string nor an array.
\<close>

lemma propertiesOf_Some: "(propertiesOf v = Some ps) = (v = JSObject ps)"
  by (cases v) simp_all

lemma stringOf_Some: "(stringOf v = Some s) = (v = JSString s)"
  by (cases v) simp_all

lemma headerEntry_iff:
  "headerEntry a = (\<exists>qs s. a = JSObject qs \<and> map_of qs ''value'' = Some (JSString s))"
  by (auto simp: headerEntry_def propertiesOf_Some stringOf_Some split: option.splits)

lemma getBest_not_object:
  "typeof h \<noteq> ''object'' \<Longrightarrow> getBestFormatFromAcceptHeader h = Inr ''jpeg''"
  by (simp add: getBestFormatFromAcceptHeader_def)

lemma getBest_undefined: "getBestFormatFromAcceptHeader JSUndefined = Inr ''jpeg''"
  by (simp add: getBestFormatFromAcceptHeader_def)

lemma getBest_no_accept:
  "map_of ps ''accept'' = None \<Longrightarrow> getBestFormatFromAcceptHeader (JSObject ps) = Inr ''jpeg''"
  by (simp add: getBestFormatFromAcceptHeader_def)

lemma getBest_accept_string:
  assumes "map_of ps ''accept'' = Some (JSObject qs)" and "map_of qs ''value'' = Some (JSString s)"
  shows "getBestFormatFromAcceptHeader (JSObject ps)
           = Inr (if sublist ''image/webp'' s then ''webp'' else ''jpeg'')"
proof (cases "s = []")
  case True
  then show ?thesis
    using assms by (simp add: getBestFormatFromAcceptHeader_def)
next
  case False
  then show ?thesis
    using assms stringIndexOf_sublist [of s "''image/webp''"]
    by (simp add: getBestFormatFromAcceptHeader_def)
qed

lemma platformHeaders_entry:
  assumes "platformHeaders (JSObject ps)" and "map_of ps k = Some v"
  shows "headerEntry v"
proof -
  have "(k, v) \<in> set ps" using assms(2) by (rule map_of_SomeD)
  then show ?thesis
    using assms(1) by (auto simp: platformHeaders_def list_all_iff)
qed

lemma getBest_platform:
  assumes "platformHeaders h"
  shows "getBestFormatFromAcceptHeader h
           = Inr (case acceptValue h of
                    None \<Rightarrow> ''jpeg''
                  | Some s \<Rightarrow> if sublist ''image/webp'' s then ''webp'' else ''jpeg'')"
proof -
  from assms obtain ps where h: "h = JSObject ps"
    by (auto simp: platformHeaders_def propertiesOf_Some split: option.splits)
  show ?thesis
  proof (cases "map_of ps ''accept''")
    case None
    then show ?thesis
      by (simp add: h getBest_no_accept acceptValue_def)
  next
    case (Some a)
    have "headerEntry a"
      using platformHeaders_entry [of ps "''accept''" a] assms Some by (simp add: h)
    then obtain qs s where a: "a = JSObject qs" and v: "map_of qs ''value'' = Some (JSString s)"
      by (auto simp: headerEntry_iff)
    show ?thesis
      using getBest_accept_string [of ps qs s] Some a v
      by (simp add: h acceptValue_def)
  qed
qed

lemma getBest_throws_iff:
  "(getBestFormatFromAcceptHeader h = Inl TypeError) =
     (h = JSNull
      \<or> (\<exists>ps qs v. h = JSObject ps \<and> map_of ps ''accept'' = Some (JSObject qs)
            \<and> map_of qs ''value'' = Some v \<and> truthy v
            \<and> (\<forall>s. v \<noteq> JSString s) \<and> (\<forall>xs. v \<noteq> JSArray xs)))"
proof (cases h)
  case (JSObject ps)
  show ?thesis
  proof (cases "map_of ps ''accept''")
    case None
    then show ?thesis by (simp add: JSObject getBestFormatFromAcceptHeader_def)
  next
    case (Some a)
    show ?thesis
    proof (cases a)
      case (JSObject qs)
      show ?thesis
      proof (cases "map_of qs ''value''")
        case None
        then show ?thesis
          using Some by (simp add: \<open>h = JSObject ps\<close> JSObject getBestFormatFromAcceptHeader_def)
      next
        case (Some v)
        then show ?thesis
          using \<open>map_of ps ''accept'' = Some a\<close>
          by (cases v) (simp_all add: \<open>h = JSObject ps\<close> JSObject getBestFormatFromAcceptHeader_def)
      qed
    qed (use Some in \<open>simp_all add: JSObject getBestFormatFromAcceptHeader_def\<close>)
  qed
qed (simp_all add: getBestFormatFromAcceptHeader_def)

text \<open>
  C6. The negotiator is claimed to return \<^verbatim>\<open>jpeg\<close> on missing or malformed headers
  and never to fail. On \<^verbatim>\<open>null\<close> the guard of line 24 lets the value through,
  since \<^verbatim>\<open>typeof null\<close> is \<^verbatim>\<open>'object'\<close>, and the read of
  \<^verbatim>\<open>headers['accept']\<close> throws.
\<close>

theorem getBestFormatFromAcceptHeader_null_throws:
  "getBestFormatFromAcceptHeader JSNull = Inl TypeError"
  by (simp add: getBestFormatFromAcceptHeader_def)

section \<open>The query loop\<close>

lemma parsePositiveInt_rejected: "(parsePositiveInt v mx = None) = rejected v"
  by (simp add: parsePositiveInt_None rejected_def)

lemma boundedKeys_not_format: "(k, mx) \<in> set boundedKeys \<Longrightarrow> k \<noteq> ''format''"
  by (auto simp: boundedKeys_def)

lemma boundedKeys_positive: "(k, mx) \<in> set boundedKeys \<Longrightarrow> 0 < mx"
  by (auto simp: boundedKeys_def MAX_DIMENSION_def)

lemma boundedKeys_small: "(k, mx) \<in> set boundedKeys \<Longrightarrow> mx < 2 ^ 53"
  by (auto simp: boundedKeys_def MAX_DIMENSION_def)

lemma parsePositiveInt_truthy:
  assumes "(k, mx) \<in> set boundedKeys" and "parsePositiveInt v (Some mx) = Some x"
  shows "numberTruthy x"
  using assms(2) boundedKeys_positive [OF assms(1)]
  by (auto simp: parsePositiveInt_Some [OF boundedKeys_small [OF assms(1)]])

lemma numberToString_nonempty: "numberToString x \<noteq> []"
  by (cases x) (simp_all add: toString_nonempty)

lemma setParsed_apply:
  "setParsed ops k p k' =
     (if k' = k \<and> (\<exists>x. p = Some x \<and> numberTruthy x) then map_option numberToString p
      else ops k')"
  by (cases p) (auto simp: setParsed_def)

lemma queryStep_fst:
  assumes "(k, mx) \<in> set boundedKeys"
  shows "fst (queryStep st e) k =
           (if named k e
            then (case parsePositiveInt (snd e) (Some mx) of
                    None \<Rightarrow> fst st k | Some x \<Rightarrow> Some (numberToString x))
            else fst st k)"
proof -
  have truthy: "\<And>x. parsePositiveInt (snd e) (Some mx) = Some x \<Longrightarrow> numberTruthy x"
    using parsePositiveInt_truthy [OF assms] by blast
  from assms consider "k = ''width'' \<and> mx = 4000" | "k = ''height'' \<and> mx = 4000"
    | "k = ''quality'' \<and> mx = 100"
    by (auto simp: boundedKeys_def MAX_DIMENSION_def)
  then show ?thesis
  proof cases
    case 1
    then show ?thesis
      using truthy
      by (auto simp: queryStep_def Let_def named_def setParsed_apply MAX_DIMENSION_def
          split: option.splits)
  next
    case 2
    then show ?thesis
      using truthy
      by (auto simp: queryStep_def Let_def named_def setParsed_apply MAX_DIMENSION_def
          split: option.splits)
  next
    case 3
    then show ?thesis
      using truthy
      by (auto simp: queryStep_def Let_def named_def setParsed_apply MAX_DIMENSION_def
          split: option.splits)
  qed
qed

lemma queryStep_snd:
  "snd (queryStep st e) =
     (if named ''format'' e \<and> supportedValue (snd e)
      then (if toLowerCase (snd e) = ''auto'' then None else Some (toLowerCase (snd e)))
      else snd st)"
  by (simp add: queryStep_def Let_def named_def supportedValue_def arrayIndexOf_mem)

lemma queryLoop_rejected:
  assumes "(k, mx) \<in> set boundedKeys"
    and "\<forall>e \<in> set qs. named k e \<longrightarrow> rejected (snd e)"
  shows "fst (foldl queryStep st qs) k = fst st k"
  using assms(2)
proof (induction qs arbitrary: st)
  case Nil
  then show ?case by simp
next
  case (Cons e qs)
  have "named k e \<Longrightarrow> parsePositiveInt (snd e) (Some mx) = None"
    using Cons.prems by (simp add: parsePositiveInt_rejected)
  then have "fst (queryStep st e) k = fst st k"
    by (auto simp: queryStep_fst [OF assms(1)])
  with Cons show ?case by simp
qed

lemma queryLoop_last_accepted:
  assumes "(k, mx) \<in> set boundedKeys"
    and "named k e"
    and "parsePositiveInt (snd e) (Some mx) = Some x"
    and "\<forall>e' \<in> set post. named k e' \<longrightarrow> rejected (snd e')"
  shows "fst (foldl queryStep st (pre @ e # post)) k = Some (numberToString x)"
proof -
  have "fst (queryStep (foldl queryStep st pre) e) k = Some (numberToString x)"
    using assms(2,3) by (simp add: queryStep_fst [OF assms(1)])
  then show ?thesis
    by (simp add: queryLoop_rejected [OF assms(1) assms(4)])
qed

lemma queryLoop_format_unsupported:
  assumes "\<forall>e \<in> set qs. named ''format'' e \<longrightarrow> \<not> supportedValue (snd e)"
  shows "snd (foldl queryStep st qs) = snd st"
  using assms
proof (induction qs arbitrary: st)
  case Nil
  then show ?case by simp
next
  case (Cons e qs)
  have "snd (queryStep st e) = snd st"
    using Cons.prems by (auto simp: queryStep_snd)
  with Cons show ?case by simp
qed

lemma queryLoop_last_format:
  assumes "named ''format'' e"
    and "supportedValue (snd e)"
    and "\<forall>e' \<in> set post. named ''format'' e' \<longrightarrow> \<not> supportedValue (snd e')"
  shows "snd (foldl queryStep st (pre @ e # post)) =
           (if toLowerCase (snd e) = ''auto'' then None else Some (toLowerCase (snd e)))"
proof -
  have "snd (queryStep (foldl queryStep st pre) e) =
          (if toLowerCase (snd e) = ''auto'' then None else Some (toLowerCase (snd e)))"
    using assms(1,2) by (simp add: queryStep_snd)
  then show ?thesis
    by (simp add: queryLoop_format_unsupported [OF assms(3)])
qed

lemma setParsed_nonempty: "nonemptyValues ops \<Longrightarrow> nonemptyValues (setParsed ops k p)"
  by (auto simp: nonemptyValues_def setParsed_apply numberToString_nonempty)

lemma queryStep_nonempty: "nonemptyValues (fst st) \<Longrightarrow> nonemptyValues (fst (queryStep st e))"
  by (simp add: queryStep_def Let_def setParsed_nonempty)

lemma foldl_queryStep_nonempty:
  "nonemptyValues (fst st) \<Longrightarrow> nonemptyValues (fst (foldl queryStep st qs))"
  by (induction qs arbitrary: st) (simp_all add: queryStep_nonempty)

lemma queryStep_explicit: "explicitFormat (snd st) \<Longrightarrow> explicitFormat (snd (queryStep st e))"
  by (simp add: queryStep_snd explicitFormat_def supportedValue_def)

lemma foldl_queryStep_explicit:
  "explicitFormat (snd st) \<Longrightarrow> explicitFormat (snd (foldl queryStep st qs))"
  by (induction qs arbitrary: st) (simp_all add: queryStep_explicit)

subsection \<open>The guard of line 49\<close>

lemma plainNames_map_of:
  "plainNames r =
     (case querystring r of None \<Rightarrow> True | Some qs \<Rightarrow> map_of qs ''hasOwnProperty'' = None)"
  by (force simp: plainNames_def list_all_iff map_of_eq_None_iff split: option.splits)

lemma queryRounds_plain:
  assumes "map_of qs ''hasOwnProperty'' = None" and "set ents \<subseteq> set qs"
  shows "queryRounds qs ents st = Inr (foldl queryStep st ents)"
  using assms(2)
proof (induction ents arbitrary: st)
  case Nil
  then show ?case by simp
next
  case (Cons entry rest)
  have "(fst entry, snd entry) \<in> set qs"
    using Cons.prems by simp
  then have "map_of qs (fst entry) \<noteq> None"
    using weak_map_of_SomeI [of "fst entry" "snd entry" qs] by auto
  then have "hasOwnPropertyCall qs (fst entry) = Inr True"
    using assms(1) by (simp add: hasOwnPropertyCall_def)
  then show ?case
    using Cons by simp
qed

lemma queryRounds_shadowed:
  assumes "map_of qs ''hasOwnProperty'' = Some entry" and "ents \<noteq> []"
  shows "queryRounds qs ents st = Inl TypeError"
  using assms by (cases ents) (simp_all add: hasOwnPropertyCall_def)

lemma queryLoop_eq:
  "queryLoop r = (if plainNames r then Inr (queryFold r) else Inl TypeError)"
proof (cases "querystring r")
  case None
  then show ?thesis
    by (simp add: queryLoop_def queryFold_def plainNames_def)
next
  case (Some qs)
  show ?thesis
  proof (cases "map_of qs ''hasOwnProperty''")
    case None
    then show ?thesis
      using Some queryRounds_plain [of qs qs]
      by (simp add: queryLoop_def queryFold_def plainNames_map_of)
  next
    case (Some entry)
    then have "qs \<noteq> []" by auto
    then show ?thesis
      using Some \<open>querystring r = Some qs\<close> queryRounds_shadowed [of qs entry qs]
      by (simp add: queryLoop_def plainNames_map_of)
  qed
qed

lemma formatFromQuery_eq:
  "formatFromQuery r = (if plainNames r then Inr (snd (queryFold r)) else Inl TypeError)"
  by (simp add: formatFromQuery_def queryLoop_eq)

subsection \<open>The state after the loop\<close>

lemma queryFold_nonempty: "nonemptyValues (fst (queryFold r))"
proof -
  have "nonemptyValues (fst (Map.empty, None :: string option))"
    by (simp add: nonemptyValues_def)
  then show ?thesis
    unfolding queryFold_def by (rule foldl_queryStep_nonempty)
qed

lemma queryFold_explicit: "explicitFormat (snd (queryFold r))"
proof -
  have "explicitFormat (snd (Map.empty :: operations, None))"
    by (simp add: explicitFormat_def)
  then show ?thesis
    unfolding queryFold_def by (rule foldl_queryStep_explicit)
qed

lemma formatFromQuery_Some:
  "formatFromQuery r = Inr (Some f) \<Longrightarrow> f \<in> set SUPPORTED_FORMATS \<and> f \<noteq> ''auto''"
  using queryFold_explicit [of r]
  by (auto simp: formatFromQuery_eq explicitFormat_def split: if_splits)

lemma supported_nonempty: "f \<in> set SUPPORTED_FORMATS \<Longrightarrow> f \<noteq> []"
  by (auto simp: SUPPORTED_FORMATS_def)

lemma finalFormat_query:
  "formatFromQuery r = Inr (Some f) \<Longrightarrow> finalFormat r = Inr f"
  using formatFromQuery_Some [of r f] supported_nonempty [of f]
  by (simp add: finalFormat_def)

lemma finalFormat_negotiated:
  "formatFromQuery r = Inr None \<Longrightarrow> finalFormat r = getBestFormatFromAcceptHeader (headers r)"
  by (simp add: finalFormat_def)

lemma finalFormat_shadowed: "\<not> plainNames r \<Longrightarrow> finalFormat r = Inl TypeError"
  by (simp add: finalFormat_def formatFromQuery_eq)

lemma finalFormat_plain: "finalFormat r = Inr f \<Longrightarrow> plainNames r"
  using finalFormat_shadowed [of r] by auto

lemma finalFormat_supported:
  assumes "finalFormat r = Inr f"
  shows "f \<in> set SUPPORTED_FORMATS \<and> f \<noteq> ''auto''"
proof (cases "snd (queryFold r)")
  case None
  then have "formatFromQuery r = Inr None"
    using finalFormat_plain [OF assms] by (simp add: formatFromQuery_eq)
  then have "getBestFormatFromAcceptHeader (headers r) = Inr f"
    using assms by (simp add: finalFormat_negotiated)
  then have "f = ''jpeg'' \<or> f = ''webp''"
    using getBestFormatFromAcceptHeader_range [of "headers r"] by auto
  then show ?thesis by (auto simp: SUPPORTED_FORMATS_def)
next
  case (Some g)
  then have g: "formatFromQuery r = Inr (Some g)"
    using finalFormat_plain [OF assms] by (simp add: formatFromQuery_eq)
  then have "f = g" using assms by (simp add: finalFormat_query)
  with g show ?thesis by (simp add: formatFromQuery_Some)
qed

lemma normalizedOperations_Inr:
  "(normalizedOperations r = Inr ops) =
     (plainNames r \<and> (\<exists>f. finalFormat r = Inr f \<and> ops = (fst (queryFold r))(''format'' \<mapsto> f)))"
  by (auto simp: normalizedOperations_def queryLoop_eq split: sum.splits)

lemma normalizedOperations_nonempty:
  assumes "normalizedOperations r = Inr ops"
  shows "nonemptyValues ops"
proof -
  from assms obtain f where f: "finalFormat r = Inr f"
    and ops: "ops = (fst (queryFold r))(''format'' \<mapsto> f)"
    by (auto simp: normalizedOperations_Inr)
  have "f \<noteq> []"
    using finalFormat_supported [OF f] supported_nonempty by blast
  then show ?thesis
    using queryFold_nonempty [of r] by (simp add: ops nonemptyValues_def)
qed

lemma normalizedOperations_bounded:
  assumes "(k, mx) \<in> set boundedKeys" and "normalizedOperations r = Inr ops"
  shows "ops k = fst (queryFold r) k"
  using assms(2) boundedKeys_not_format [OF assms(1)]
  by (auto simp: normalizedOperations_Inr)

lemma queryLoop_present_iff:
  assumes "(k, mx) \<in> set boundedKeys"
  shows "(fst (foldl queryStep (Map.empty, None) qs) k = None)
           = (\<forall>e \<in> set qs. named k e \<longrightarrow> rejected (snd e))"
proof
  assume none: "fst (foldl queryStep (Map.empty, None) qs) k = None"
  show "\<forall>e \<in> set qs. named k e \<longrightarrow> rejected (snd e)"
  proof (rule ccontr)
    assume "\<not> (\<forall>e \<in> set qs. named k e \<longrightarrow> rejected (snd e))"
    then have "\<exists>e \<in> set qs. named k e \<and> \<not> rejected (snd e)" by blast
    then obtain pre e post where qs: "qs = pre @ e # post"
      and e: "named k e \<and> \<not> rejected (snd e)"
      and post: "\<forall>e' \<in> set post. \<not> (named k e' \<and> \<not> rejected (snd e'))"
      using split_list_last_prop [of qs "\<lambda>e. named k e \<and> \<not> rejected (snd e)"] by blast
    from e obtain x where x: "parsePositiveInt (snd e) (Some mx) = Some x"
      using parsePositiveInt_rejected [of "snd e" "Some mx"]
      by (cases "parsePositiveInt (snd e) (Some mx)") auto
    have "fst (foldl queryStep (Map.empty, None) (pre @ e # post)) k = Some (numberToString x)"
      using post by (intro queryLoop_last_accepted [OF assms _ x]) (use e in auto)
    with none qs show False by simp
  qed
next
  assume "\<forall>e \<in> set qs. named k e \<longrightarrow> rejected (snd e)"
  then show "fst (foldl queryStep (Map.empty, None) qs) k = None"
    by (simp add: queryLoop_rejected [OF assms])
qed

subsection \<open>Single rounds of the loop on concrete entries\<close>

lemma step_width_300: "queryStep (ops, fq) (''width'', ''300'') = (ops(''width'' \<mapsto> ''300''), fq)"
  by (simp add: queryStep_def setParsed_def parsePositiveInt_facts MAX_DIMENSION_def eval_facts)

lemma step_WIDTH_500: "queryStep (ops, fq) (''WIDTH'', ''500'') = (ops(''width'' \<mapsto> ''500''), fq)"
  by (simp add: queryStep_def setParsed_def parsePositiveInt_facts MAX_DIMENSION_def eval_facts)

lemma step_WIDTH_abc: "queryStep (ops, fq) (''WIDTH'', ''abc'') = (ops, fq)"
  by (simp add: queryStep_def setParsed_def parsePositiveInt_facts MAX_DIMENSION_def eval_facts)

lemma step_height_9999:
  "queryStep (ops, fq) (''height'', ''9999'') = (ops(''height'' \<mapsto> ''4000''), fq)"
  by (simp add: queryStep_def setParsed_def parsePositiveInt_facts MAX_DIMENSION_def eval_facts)

lemma step_quality_0: "queryStep (ops, fq) (''quality'', ''0'') = (ops, fq)"
  by (simp add: queryStep_def setParsed_def parsePositiveInt_facts MAX_DIMENSION_def eval_facts)

lemma step_format_png: "queryStep (ops, fq) (''format'', ''png'') = (ops, Some ''png'')"
  by (simp add: queryStep_def arrayIndexOf_mem SUPPORTED_FORMATS_def eval_facts)

lemma step_format_webp: "queryStep (ops, fq) (''format'', ''webp'') = (ops, Some ''webp'')"
  by (simp add: queryStep_def arrayIndexOf_mem SUPPORTED_FORMATS_def eval_facts)

lemma step_format_auto: "queryStep (ops, fq) (''format'', ''auto'') = (ops, None)"
  by (simp add: queryStep_def arrayIndexOf_mem SUPPORTED_FORMATS_def eval_facts)

lemma step_FORMAT_auto: "queryStep (ops, fq) (''FORMAT'', ''auto'') = (ops, None)"
  by (simp add: queryStep_def arrayIndexOf_mem SUPPORTED_FORMATS_def eval_facts)

lemma step_FORMAT_png: "queryStep (ops, fq) (''FORMAT'', ''png'') = (ops, Some ''png'')"
  by (simp add: queryStep_def arrayIndexOf_mem SUPPORTED_FORMATS_def eval_facts)

lemmas step_facts = step_width_300 step_WIDTH_500 step_WIDTH_abc step_height_9999
  step_quality_0 step_format_png step_format_webp step_format_auto step_FORMAT_auto
  step_FORMAT_png

lemma getBest_empty: "getBestFormatFromAcceptHeader (JSObject []) = Inr ''jpeg''"
  by (simp add: getBestFormatFromAcceptHeader_def)

lemmas loop_defs = normalizedOperations_def finalFormat_def formatFromQuery_def queryLoop_def
  hasOwnPropertyCall_def

subsection \<open>The bounded parameters\<close>

text \<open>
  C1, as the code has it. The names of query parameters are lower-cased before the
  dispatch, so a request can carry several parameters of one name (\<^verbatim>\<open>width\<close> and
  \<^verbatim>\<open>WIDTH\<close>); each accepted one overwrites the key. For width and height with the
  bound 4000 and for quality with the bound 100: the last parameter of that name, in
  the order of iteration, whose value parses to a positive integer \<open>n\<close> decides the
  key, with exactly \<open>n\<close> when \<open>n\<close> is at most the bound and the bound when it is
  larger; the key is absent exactly when every parameter of that name has a value that
  is non-numeric or parses to an integer that is not positive. Here \<open>n\<close> is the integer
  that the digits denote (\<open>mathInt\<close>); the mapping holds the number as its decimal
  string, which parses back to the number (\<open>parseInt10_toString\<close>).
\<close>

theorem bounded_parameter_output:
  assumes "(k, mx) \<in> set boundedKeys"
    and "normalizedOperations r = Inr ops"
  shows "(\<forall>pre e post n.
            querystring r = Some (pre @ e # post) \<and> named k e
            \<and> mathInt (snd e) = Some n \<and> 1 \<le> n
            \<and> (\<forall>e' \<in> set post. named k e' \<longrightarrow> rejected (snd e'))
            \<longrightarrow> (n \<le> mx \<longrightarrow> ops k = Some (toString n))
                \<and> (mx < n \<longrightarrow> ops k = Some (toString mx)))
       \<and> ((ops k = None)
            = (\<forall>qs. querystring r = Some qs
                 \<longrightarrow> (\<forall>e \<in> set qs. named k e \<longrightarrow> rejected (snd e))))"
proof (intro conjI allI impI)
  fix pre e post n
  assume h: "querystring r = Some (pre @ e # post) \<and> named k e
            \<and> mathInt (snd e) = Some n \<and> 1 \<le> n
            \<and> (\<forall>e' \<in> set post. named k e' \<longrightarrow> rejected (snd e'))"
  then have p: "parsePositiveInt (snd e) (Some mx) = Some (Finite (min n mx))"
    by (simp add: parsePositiveInt_bounded [OF boundedKeys_small [OF assms(1)]])
  have "fst (foldl queryStep (Map.empty, None) (pre @ e # post)) k
          = Some (numberToString (Finite (min n mx)))"
    using h by (intro queryLoop_last_accepted [OF assms(1) _ p]) auto
  then have v: "ops k = Some (toString (min n mx))"
    using h by (simp add: normalizedOperations_bounded [OF assms] queryFold_def)
  show "n \<le> mx \<Longrightarrow> ops k = Some (toString n)"
    using v by (simp add: min_def)
  show "mx < n \<Longrightarrow> ops k = Some (toString mx)"
    using v by (simp add: min_def)
next
  show "(ops k = None)
            = (\<forall>qs. querystring r = Some qs
                 \<longrightarrow> (\<forall>e \<in> set qs. named k e \<longrightarrow> rejected (snd e)))"
  proof (cases "querystring r")
    case None
    then show ?thesis
      by (simp add: normalizedOperations_bounded [OF assms] queryFold_def)
  next
    case (Some qs)
    then show ?thesis
      by (simp add: normalizedOperations_bounded [OF assms] queryFold_def
          queryLoop_present_iff [OF assms(1)])
  qed
qed

theorem bounded_parameter_output_witness:
  "(''width'', 4000) \<in> set boundedKeys
   \<and> normalizedOperations
        \<lparr>uri = ''/img/cat.png'',
         querystring = Some [(''width'', ''300''), (''WIDTH'', ''abc''), (''height'', ''9999''),
                             (''format'', ''png'')],
         headers = JSObject []\<rparr>
       = Inr [''width'' \<mapsto> ''300'', ''height'' \<mapsto> ''4000'', ''format'' \<mapsto> ''png'']
   \<and> named ''width'' (''width'', ''300'') \<and> mathInt ''300'' = Some 300
   \<and> named ''width'' (''WIDTH'', ''abc'') \<and> rejected ''abc''
   \<and> [''width'' \<mapsto> ''300'', ''height'' \<mapsto> ''4000'', ''format'' \<mapsto> ''png''] ''width''
       = Some (toString 300)
   \<and> [''width'' \<mapsto> ''300'', ''height'' \<mapsto> ''4000'', ''format'' \<mapsto> ''png''] ''quality''
       = None"
proof -
  let ?r = "\<lparr>uri = ''/img/cat.png'',
         querystring = Some [(''width'', ''300''), (''WIDTH'', ''abc''), (''height'', ''9999''),
                             (''format'', ''png'')],
         headers = JSObject []\<rparr>"
  let ?ops = "[''width'' \<mapsto> ''300'', ''height'' \<mapsto> ''4000'', ''format'' \<mapsto> ''png'']"
  have k: "(''width'', 4000) \<in> set boundedKeys"
    by (simp add: boundedKeys_def MAX_DIMENSION_def)
  have n: "normalizedOperations ?r = Inr ?ops"
    by (simp add: loop_defs step_facts)
  have h: "querystring ?r = Some ([] @ (''width'', ''300'') # [(''WIDTH'', ''abc''),
              (''height'', ''9999''), (''format'', ''png'')])
           \<and> named ''width'' (''width'', ''300'')
           \<and> mathInt (snd (''width'', ''300'')) = Some 300 \<and> (1 :: int) \<le> 300
           \<and> (\<forall>e' \<in> set [(''WIDTH'', ''abc''), (''height'', ''9999''), (''format'', ''png'')].
                 named ''width'' e' \<longrightarrow> rejected (snd e'))"
    by (simp add: named_def rejected_facts eval_facts)
  have "?ops ''width'' = Some (toString 300)"
    using bounded_parameter_output [OF k n, THEN conjunct1, rule_format, OF h] by simp
  then show ?thesis
    using k n by (simp add: named_def rejected_facts eval_facts)
qed

text \<open>
  C1 as stated fails: the request below has the parameter \<^verbatim>\<open>width=300\<close>, whose value
  is within the bound, and the output mapping holds 500 under width, the value of the
  later parameter \<^verbatim>\<open>WIDTH=500\<close>.
\<close>

theorem width_overwritten_counterexample:
  "named ''width'' (''width'', ''300'') \<and> mathInt ''300'' = Some 300
   \<and> operationValue \<lparr>uri = ''/img/cat.png'',
                       querystring = Some [(''width'', ''300''), (''WIDTH'', ''500'')],
                       headers = JSObject []\<rparr> ''width'' = Inr (Some ''500'')"
  by (simp add: named_def operationValue_def loop_defs step_facts getBest_empty eval_facts)

section \<open>The resolved format\<close>

lemma formatFromQuery_last:
  assumes "querystring r = Some (pre @ e # post)"
    and "named ''format'' e"
    and "supportedValue (snd e)"
    and "\<forall>e' \<in> set post. named ''format'' e' \<longrightarrow> \<not> supportedValue (snd e')"
    and "plainNames r"
  shows "formatFromQuery r =
           Inr (if toLowerCase (snd e) = ''auto'' then None else Some (toLowerCase (snd e)))"
  using assms(1,5) queryLoop_last_format [OF assms(2,3,4)]
  by (simp add: formatFromQuery_eq queryFold_def)

lemma webp_supported: "toLowerCase v = ''webp'' \<Longrightarrow> supportedValue v"
  by (auto simp: supportedValue_def SUPPORTED_FORMATS_def toLowerCase_def)

lemma auto_supported: "toLowerCase v = ''auto'' \<Longrightarrow> supportedValue v"
  by (auto simp: supportedValue_def SUPPORTED_FORMATS_def toLowerCase_def)

text \<open>
  C4, as the code has it. Every parameter named format (in any letter case) with a
  supported value overwrites \<^verbatim>\<open>formatFromQuery\<close>, so it is the last of them, in the
  order of iteration, that decides. When that one is \<^verbatim>\<open>webp\<close> (in any letter case),
  in particular when it is the only format parameter, and no parameter is named
  \<^verbatim>\<open>hasOwnProperty\<close> (the loop throws on such a request), the resolved format is
  \<^verbatim>\<open>webp\<close> whatever the headers are, \<^verbatim>\<open>null\<close> and malformed ones included.
\<close>

theorem query_webp_wins:
  assumes "named ''format'' e"
    and "toLowerCase (snd e) = ''webp''"
    and "\<forall>e' \<in> set post. named ''format'' e' \<longrightarrow> \<not> supportedValue (snd e')"
    and "\<forall>e' \<in> set (pre @ e # post). fst e' \<noteq> ''hasOwnProperty''"
  shows "finalFormat \<lparr>uri = u, querystring = Some (pre @ e # post), headers = h\<rparr> = Inr ''webp''
       \<and> operationValue \<lparr>uri = u, querystring = Some (pre @ e # post), headers = h\<rparr> ''format''
           = Inr (Some ''webp'')"
proof -
  let ?r = "\<lparr>uri = u, querystring = Some (pre @ e # post), headers = h\<rparr>"
  have q: "querystring ?r = Some (pre @ e # post)" by simp
  have plain: "plainNames ?r"
    using assms(4) by (simp add: plainNames_def list_all_iff)
  have "formatFromQuery ?r = Inr (Some ''webp'')"
    using formatFromQuery_last [OF q assms(1) webp_supported [OF assms(2)] assms(3) plain]
      assms(2)
    by simp
  then have "finalFormat ?r = Inr ''webp''"
    by (rule finalFormat_query)
  then show ?thesis
    using plain by (simp add: operationValue_def normalizedOperations_def queryLoop_eq)
qed

theorem query_webp_wins_witness:
  "finalFormat \<lparr>uri = ''/a.png'',
                querystring = Some [(''width'', ''300''), (''FORMAT'', ''WebP''), (''format'', ''bmp'')],
                headers = JSObject [(''accept'', JSObject [(''value'', JSString ''image/png'')])]\<rparr>
   = Inr ''webp''"
proof -
  have a: "named ''format'' (''FORMAT'', ''WebP'')"
    by (simp add: named_def toLowerCase_facts)
  have b: "toLowerCase (snd (''FORMAT'', ''WebP'')) = ''webp''"
    by (simp add: toLowerCase_def lowerChar_def char_of_def bit_0)
  have c: "\<forall>e' \<in> set [(''format'', ''bmp'')]. named ''format'' e' \<longrightarrow> \<not> supportedValue (snd e')"
    by (simp add: supportedValue_def SUPPORTED_FORMATS_def toLowerCase_def lowerChar_def)
  have d: "\<forall>e' \<in> set ([(''width'', ''300'')] @ (''FORMAT'', ''WebP'') # [(''format'', ''bmp'')]).
             fst e' \<noteq> ''hasOwnProperty''"
    by simp
  show ?thesis
    using query_webp_wins [OF a b c d, of "''/a.png''"] by simp
qed

text \<open>
  C4 as stated fails: the query string below contains \<^verbatim>\<open>format=webp\<close>, a later
  \<^verbatim>\<open>FORMAT=auto\<close> resets the choice, and the Accept header decides: the output
  carries \<^verbatim>\<open>format=jpeg\<close>.
\<close>

theorem query_webp_overridden_counterexample:
  "named ''format'' (''format'', ''webp'') \<and> toLowerCase ''webp'' = ''webp''
   \<and> handler \<lparr>request = \<lparr>uri = ''/a.png'',
                 querystring = Some [(''format'', ''webp''), (''FORMAT'', ''auto'')],
                 headers = JSObject [(''accept'', JSObject [(''value'', JSString ''image/png'')])]\<rparr>\<rparr>
     = Inr \<lparr>uri = ''/a.png/format%3Djpeg'', querystring = Some [],
            headers = JSObject [(''accept'', JSObject [(''value'', JSString ''image/png'')])]\<rparr>"
  by (simp add: named_def handler_def loop_defs step_facts getBest_png
      normalizedOperationsArray_def pushIfSet_def eval_facts)

text \<open>
  C5, as the code has it. The format that the handler resolves is never \<^verbatim>\<open>auto\<close>,
  on any request. A parameter \<^verbatim>\<open>format=auto\<close> (in any letter case) hands the choice
  to the negotiation on the Accept header when no later format parameter has a
  supported value, in particular when it is the only format parameter, and no
  parameter is named \<^verbatim>\<open>hasOwnProperty\<close> (the loop throws on such a request).
\<close>

theorem auto_never_output:
  "(\<forall>f. finalFormat r = Inr f \<longrightarrow> f \<noteq> ''auto'')
   \<and> operationValue r ''format'' \<noteq> Inr (Some ''auto'')
   \<and> (\<forall>pre e post.
         querystring r = Some (pre @ e # post) \<and> named ''format'' e
         \<and> toLowerCase (snd e) = ''auto''
         \<and> (\<forall>e' \<in> set post. named ''format'' e' \<longrightarrow> \<not> supportedValue (snd e'))
         \<and> (\<forall>e' \<in> set (pre @ e # post). fst e' \<noteq> ''hasOwnProperty'')
         \<longrightarrow> finalFormat r = getBestFormatFromAcceptHeader (headers r))"
proof (intro conjI allI impI)
  fix f
  assume "finalFormat r = Inr f"
  then show "f \<noteq> ''auto''"
    by (simp add: finalFormat_supported)
next
  show "operationValue r ''format'' \<noteq> Inr (Some ''auto'')"
    using finalFormat_supported [of r]
    by (auto simp: operationValue_def normalizedOperations_def split: sum.splits)
next
  fix pre e post
  assume h: "querystring r = Some (pre @ e # post) \<and> named ''format'' e
         \<and> toLowerCase (snd e) = ''auto''
         \<and> (\<forall>e' \<in> set post. named ''format'' e' \<longrightarrow> \<not> supportedValue (snd e'))
         \<and> (\<forall>e' \<in> set (pre @ e # post). fst e' \<noteq> ''hasOwnProperty'')"
  then have plain: "plainNames r"
    by (simp add: plainNames_def list_all_iff)
  have "formatFromQuery r = Inr None"
    using h formatFromQuery_last [of r pre e post, OF _ _ _ _ plain] auto_supported [of "snd e"]
    by simp
  then show "finalFormat r = getBestFormatFromAcceptHeader (headers r)"
    by (rule finalFormat_negotiated)
qed

theorem auto_never_output_witness:
  "finalFormat \<lparr>uri = ''/a.png'',
                querystring = Some [(''format'', ''png''), (''FORMAT'', ''auto'')],
                headers = JSObject [(''accept'', JSObject [(''value'', JSString ''text/html,image/webp'')])]\<rparr>
   = Inr ''webp''"
proof -
  let ?r = "\<lparr>uri = ''/a.png'',
                querystring = Some [(''format'', ''png''), (''FORMAT'', ''auto'')],
                headers = JSObject [(''accept'', JSObject [(''value'', JSString ''text/html,image/webp'')])]\<rparr>"
  have h: "querystring ?r = Some ([(''format'', ''png'')] @ (''FORMAT'', ''auto'') # [])
         \<and> named ''format'' (''FORMAT'', ''auto'')
         \<and> toLowerCase (snd (''FORMAT'', ''auto'')) = ''auto''
         \<and> (\<forall>e' \<in> set []. named ''format'' e' \<longrightarrow> \<not> supportedValue (snd e'))
         \<and> (\<forall>e' \<in> set ([(''format'', ''png'')] @ (''FORMAT'', ''auto'') # []).
               fst e' \<noteq> ''hasOwnProperty'')"
    by (simp add: named_def toLowerCase_facts)
  have "finalFormat ?r = getBestFormatFromAcceptHeader (headers ?r)"
    using auto_never_output [of ?r, THEN conjunct2, THEN conjunct2, rule_format, OF h] .
  then show ?thesis
    by (simp add: getBest_webp)
qed

text \<open>
  C5 as stated fails in its second half: the query string below contains
  \<^verbatim>\<open>format=auto\<close>, the negotiation on the headers would give \<^verbatim>\<open>webp\<close>, and the
  resolved format is \<^verbatim>\<open>png\<close>, taken from the later \<^verbatim>\<open>FORMAT=png\<close>.
\<close>

theorem auto_overridden_counterexample:
  "named ''format'' (''format'', ''auto'') \<and> toLowerCase ''auto'' = ''auto''
   \<and> getBestFormatFromAcceptHeader
        (JSObject [(''accept'', JSObject [(''value'', JSString ''text/html,image/webp'')])])
      = Inr ''webp''
   \<and> finalFormat \<lparr>uri = ''/a.png'',
                   querystring = Some [(''format'', ''auto''), (''FORMAT'', ''png'')],
                   headers = JSObject [(''accept'', JSObject [(''value'', JSString ''text/html,image/webp'')])]\<rparr>
      = Inr ''png''"
  by (simp add: named_def loop_defs step_facts getBest_webp eval_facts)

section \<open>The handler\<close>

lemma pushIfSet_specPair:
  assumes "nonemptyValues ops" and "encodeURIComponent k = k"
  shows "pushIfSet ops k = specPair ops k"
  using assms by (auto simp: pushIfSet_def specPair_def nonemptyValues_def split: option.splits)

lemma normalizedOperationsArray_spec:
  assumes "nonemptyValues ops"
  shows "join '','' (normalizedOperationsArray ops) = specSegment ops"
  by (simp add: normalizedOperationsArray_def specSegment_def
      pushIfSet_specPair [OF assms] encodeURIComponent_facts)

lemma handler_Inr:
  "normalizedOperations (request ev) = Inr ops \<Longrightarrow>
   handler ev = Inr ((request ev)\<lparr>uri := uri (request ev) @ ''/''
                        @ encodeURIComponent (join '','' (normalizedOperationsArray ops)),
                      querystring := Some []\<rparr>)"
  by (simp add: handler_def Let_def)

lemma handler_Inl:
  "normalizedOperations (request ev) = Inl e \<Longrightarrow> handler ev = Inl e"
  by (simp add: handler_def)


lemma handler_returns_iff:
  "(\<exists>out. handler ev = Inr out) =
     (plainNames (request ev)
      \<and> ((\<exists>f. formatFromQuery (request ev) = Inr (Some f))
          \<or> (\<exists>f. getBestFormatFromAcceptHeader (headers (request ev)) = Inr f)))"
proof (cases "plainNames (request ev)")
  case False
  then show ?thesis
    by (simp add: handler_def Let_def normalizedOperations_def queryLoop_eq)
next
  case True
  show ?thesis
  proof (cases "snd (queryFold (request ev))")
    case None
    then have "formatFromQuery (request ev) = Inr None"
      using True by (simp add: formatFromQuery_eq)
    then show ?thesis
      using True
      by (auto simp: handler_def Let_def normalizedOperations_def queryLoop_eq
          finalFormat_negotiated split: sum.splits)
  next
    case (Some f)
    then have "formatFromQuery (request ev) = Inr (Some f)"
      using True by (simp add: formatFromQuery_eq)
    then show ?thesis
      using True
      by (simp add: handler_def Let_def normalizedOperations_def queryLoop_eq finalFormat_query)
  qed
qed

lemma handler_returns_platform:
  assumes "plainNames (request ev)" and "platformHeaders (headers (request ev))"
  shows "\<exists>out. handler ev = Inr out"
  using assms by (simp add: handler_returns_iff getBest_platform)

lemma queryLoop_cat:
  "queryLoop \<lparr>uri = u,
              querystring = Some [(''width'', ''300''), (''height'', ''9999''),
                                  (''quality'', ''0''), (''format'', ''png'')],
              headers = h\<rparr>
   = Inr ([''width'' \<mapsto> ''300'', ''height'' \<mapsto> ''4000''], Some ''png'')"
  by (simp add: queryLoop_def hasOwnPropertyCall_def step_facts)

lemma normalizedOperations_cat:
  "normalizedOperations
     \<lparr>uri = u,
      querystring = Some [(''width'', ''300''), (''height'', ''9999''),
                          (''quality'', ''0''), (''format'', ''png'')],
      headers = h\<rparr>
   = Inr [''width'' \<mapsto> ''300'', ''height'' \<mapsto> ''4000'', ''format'' \<mapsto> ''png'']"
  by (simp add: normalizedOperations_def finalFormat_def formatFromQuery_def queryLoop_cat)

lemma array_cat:
  "normalizedOperationsArray [''width'' \<mapsto> ''300'', ''height'' \<mapsto> ''4000'', ''format'' \<mapsto> ''png'']
   = [''format=png'', ''width=300'', ''height=4000'']"
  by (simp add: normalizedOperationsArray_def pushIfSet_def encodeURIComponent_facts)

lemma specSegment_cat:
  "specSegment [''width'' \<mapsto> ''300'', ''height'' \<mapsto> ''4000'', ''format'' \<mapsto> ''png'']
   = ''format=png,width=300,height=4000''"
  by (simp add: specSegment_def specPair_def encodeURIComponent_facts)

lemma handler_cat:
  "handler \<lparr>request = \<lparr>uri = ''/img/cat.png'',
              querystring = Some [(''width'', ''300''), (''height'', ''9999''),
                                  (''quality'', ''0''), (''format'', ''png'')],
              headers = h\<rparr>\<rparr>
   = Inr \<lparr>uri = ''/img/cat.png/format%3Dpng%2Cwidth%3D300%2Cheight%3D4000'',
          querystring = Some [], headers = h\<rparr>"
  by (simp add: handler_def normalizedOperations_cat array_cat encodeURIComponent_facts)

text \<open>
  C2. Whenever the handler returns, the segment it appends is the one the specification
  describes: the pairs \<open>key=value\<close> in the order format, quality, width, height, the
  absent keys left out and format always present, joined by commas, key and value each
  percent-encoded and the joined segment percent-encoded once more. The code encodes
  the values only; the four keys are unreserved characters, which the encoding leaves
  as they are.
\<close>

theorem segment_serialization:
  assumes "normalizedOperations (request ev) = Inr ops"
  shows "ops ''format'' \<noteq> None
       \<and> handler ev = Inr ((request ev)\<lparr>uri := uri (request ev) @ ''/''
                                @ encodeURIComponent (specSegment ops),
                              querystring := Some []\<rparr>)"
proof -
  have "ops ''format'' \<noteq> None"
    using assms by (auto simp: normalizedOperations_Inr)
  moreover have "join '','' (normalizedOperationsArray ops) = specSegment ops"
    using normalizedOperations_nonempty [OF assms] by (rule normalizedOperationsArray_spec)
  ultimately show ?thesis
    using handler_Inr [OF assms] by simp
qed

theorem segment_serialization_witness:
  "handler \<lparr>request = \<lparr>uri = ''/img/cat.png'',
              querystring = Some [(''width'', ''300''), (''height'', ''9999''),
                                  (''quality'', ''0''), (''format'', ''png'')],
              headers = JSObject []\<rparr>\<rparr>
   = Inr \<lparr>uri = ''/img/cat.png/'' @ encodeURIComponent ''format=png,width=300,height=4000'',
          querystring = Some [], headers = JSObject []\<rparr>"
proof -
  let ?r = "\<lparr>uri = ''/img/cat.png'',
              querystring = Some [(''width'', ''300''), (''height'', ''9999''),
                                  (''quality'', ''0''), (''format'', ''png'')],
              headers = JSObject []\<rparr>"
  have n: "normalizedOperations (request \<lparr>request = ?r\<rparr>)
             = Inr [''width'' \<mapsto> ''300'', ''height'' \<mapsto> ''4000'', ''format'' \<mapsto> ''png'']"
    by (simp add: normalizedOperations_cat)
  show ?thesis
    using segment_serialization [OF n] by (simp add: specSegment_cat)
qed

text \<open>
  C3. On every request that has no parameter named \<^verbatim>\<open>hasOwnProperty\<close> and whose
  headers have the platform's shape the handler returns a request. It returns exactly
  when no parameter has that name and either the query gives an explicit format or the
  negotiator returns on the headers. Every request that it returns has the original
  uri followed by \<open>/\<close> and the percent-encoded operations token, an empty query
  string, and the headers of the input.
\<close>

theorem output_request:
  "(plainNames (request ev) \<and> platformHeaders (headers (request ev))
      \<longrightarrow> (\<exists>out. handler ev = Inr out))
   \<and> ((\<exists>out. handler ev = Inr out) =
        (plainNames (request ev)
         \<and> ((\<exists>f. formatFromQuery (request ev) = Inr (Some f))
             \<or> (\<exists>f. getBestFormatFromAcceptHeader (headers (request ev)) = Inr f))))
   \<and> (\<forall>out. handler ev = Inr out \<longrightarrow>
         (\<exists>ops. normalizedOperations (request ev) = Inr ops
            \<and> uri out = uri (request ev) @ ''/''
                 @ encodeURIComponent (join '','' (normalizedOperationsArray ops)))
         \<and> querystring out = Some []
         \<and> headers out = headers (request ev))"
proof (intro conjI allI impI)
  assume "plainNames (request ev) \<and> platformHeaders (headers (request ev))"
  then show "\<exists>out. handler ev = Inr out"
    by (simp add: handler_returns_platform)
next
  show "(\<exists>out. handler ev = Inr out) =
        (plainNames (request ev)
         \<and> ((\<exists>f. formatFromQuery (request ev) = Inr (Some f))
             \<or> (\<exists>f. getBestFormatFromAcceptHeader (headers (request ev)) = Inr f)))"
    by (rule handler_returns_iff)
next
  fix out
  assume out: "handler ev = Inr out"
  show "\<exists>ops. normalizedOperations (request ev) = Inr ops
            \<and> uri out = uri (request ev) @ ''/''
                 @ encodeURIComponent (join '','' (normalizedOperationsArray ops))"
  proof (cases "normalizedOperations (request ev)")
    case (Inl e)
    then show ?thesis using out by (simp add: handler_Inl)
  next
    case (Inr ops)
    then show ?thesis using out handler_Inr [OF Inr] by auto
  qed
  show "querystring out = Some []"
  proof (cases "normalizedOperations (request ev)")
    case (Inl e)
    then show ?thesis using out by (simp add: handler_Inl)
  next
    case (Inr ops)
    then show ?thesis using out handler_Inr [OF Inr] by auto
  qed
  show "headers out = headers (request ev)"
  proof (cases "normalizedOperations (request ev)")
    case (Inl e)
    then show ?thesis using out by (simp add: handler_Inl)
  next
    case (Inr ops)
    then show ?thesis using out handler_Inr [OF Inr] by auto
  qed
qed

theorem output_request_witness:
  "handler \<lparr>request = \<lparr>uri = ''/img/cat.png'',
              querystring = Some [(''width'', ''300''), (''height'', ''9999''),
                                  (''quality'', ''0''), (''format'', ''png'')],
              headers = JSObject [(''accept'', JSObject [(''value'', JSString ''*/*'')])]\<rparr>\<rparr>
     = Inr \<lparr>uri = ''/img/cat.png/format%3Dpng%2Cwidth%3D300%2Cheight%3D4000'',
            querystring = Some [],
            headers = JSObject [(''accept'', JSObject [(''value'', JSString ''*/*'')])]\<rparr>
   \<and> (\<exists>ops. normalizedOperations
               \<lparr>uri = ''/img/cat.png'',
                querystring = Some [(''width'', ''300''), (''height'', ''9999''),
                                    (''quality'', ''0''), (''format'', ''png'')],
                headers = JSObject [(''accept'', JSObject [(''value'', JSString ''*/*'')])]\<rparr>
              = Inr ops
            \<and> ''/img/cat.png/format%3Dpng%2Cwidth%3D300%2Cheight%3D4000''
              = ''/img/cat.png'' @ ''/''
                @ encodeURIComponent (join '','' (normalizedOperationsArray ops)))"
proof -
  let ?h = "JSObject [(''accept'', JSObject [(''value'', JSString ''*/*'')])]"
  have out: "handler \<lparr>request = \<lparr>uri = ''/img/cat.png'',
              querystring = Some [(''width'', ''300''), (''height'', ''9999''),
                                  (''quality'', ''0''), (''format'', ''png'')],
              headers = ?h\<rparr>\<rparr>
   = Inr \<lparr>uri = ''/img/cat.png/format%3Dpng%2Cwidth%3D300%2Cheight%3D4000'',
          querystring = Some [], headers = ?h\<rparr>"
    by (rule handler_cat)
  have p: "plainNames (request \<lparr>request = \<lparr>uri = ''/img/cat.png'',
              querystring = Some [(''width'', ''300''), (''height'', ''9999''),
                                  (''quality'', ''0''), (''format'', ''png'')],
              headers = ?h\<rparr>\<rparr>)
           \<and> platformHeaders (headers (request \<lparr>request = \<lparr>uri = ''/img/cat.png'',
              querystring = Some [(''width'', ''300''), (''height'', ''9999''),
                                  (''quality'', ''0''), (''format'', ''png'')],
              headers = ?h\<rparr>\<rparr>))"
    by (simp add: plainNames_def platformHeaders_def headerEntry_def)
  from output_request [THEN conjunct2, THEN conjunct2, rule_format, OF out]
    output_request [THEN conjunct1, rule_format, OF p] out
  show ?thesis by simp
qed

text \<open>
  C9. The request for \<^verbatim>\<open>/img/cat.png\<close> with the query
  \<^verbatim>\<open>width=300&height=9999&quality=0&format=png\<close> is rewritten to the path followed by
  \<open>/\<close> and the percent-encoding of \<^verbatim>\<open>format=png,width=300,height=4000\<close>: quality is
  dropped, height is clamped to 4000. The format is explicit, so this holds for any
  headers.
\<close>

theorem cat_example:
  "handler \<lparr>request = \<lparr>uri = ''/img/cat.png'',
              querystring = Some [(''width'', ''300''), (''height'', ''9999''),
                                  (''quality'', ''0''), (''format'', ''png'')],
              headers = h\<rparr>\<rparr>
   = Inr \<lparr>uri = ''/img/cat.png/'' @ encodeURIComponent ''format=png,width=300,height=4000'',
          querystring = Some [], headers = h\<rparr>"
  by (simp add: handler_cat encodeURIComponent_facts)

text \<open>
  The handler throws exactly when a parameter is named \<^verbatim>\<open>hasOwnProperty\<close>, or the
  query gives no explicit format and the negotiator throws on the headers.
\<close>

lemma handler_throws_iff:
  "(handler ev = Inl TypeError) =
     (\<not> plainNames (request ev)
      \<or> (formatFromQuery (request ev) = Inr None
          \<and> getBestFormatFromAcceptHeader (headers (request ev)) = Inl TypeError))"
proof -
  have "(handler ev = Inl TypeError) = (\<not> (\<exists>out. handler ev = Inr out))"
    by (cases "handler ev") (simp_all add: error_TypeError)
  also have "\<dots> = (\<not> plainNames (request ev)
      \<or> (formatFromQuery (request ev) = Inr None
          \<and> getBestFormatFromAcceptHeader (headers (request ev)) = Inl TypeError))"
  proof (cases "plainNames (request ev)")
    case False
    then show ?thesis by (simp add: handler_returns_iff)
  next
    case True
    have "(\<forall>f. getBestFormatFromAcceptHeader (headers (request ev)) \<noteq> Inr f)
            = (getBestFormatFromAcceptHeader (headers (request ev)) = Inl TypeError)"
      by (cases "getBestFormatFromAcceptHeader (headers (request ev))")
        (simp_all add: error_TypeError)
    then show ?thesis
      using True
      by (cases "snd (queryFold (request ev))") (simp_all add: handler_returns_iff formatFromQuery_eq)
  qed
  finally show ?thesis .
qed

text \<open>
  A parameter named \<^verbatim>\<open>hasOwnProperty\<close> is enough to make the handler throw, whatever
  the other parameters and the headers are.
\<close>

lemma handler_hasOwnProperty_throws:
  "handler \<lparr>request = \<lparr>uri = ''/a.png'',
                         querystring = Some [(''width'', ''300''), (''hasOwnProperty'', ''1'')],
                         headers = JSObject []\<rparr>\<rparr>
     = Inl TypeError"
  by (simp add: handler_def loop_defs)

text \<open>
  C7. The handler is claimed to return on every event. With \<^verbatim>\<open>headers\<close> being
  \<^verbatim>\<open>null\<close> and no format in the query, line 83 calls the negotiator, which throws.
\<close>

theorem handler_null_headers_throws:
  "handler \<lparr>request = \<lparr>uri = ''/img/cat.png'', querystring = Some [], headers = JSNull\<rparr>\<rparr>
     = Inl TypeError"
  by (simp add: handler_def loop_defs getBestFormatFromAcceptHeader_def)

subsection \<open>The order of the query entries\<close>









end
